theory Spec2Isabelle
  imports Main "HOL-Library.Sublist"
begin

section \<open>Text primitives of the host language\<close>

text \<open>
  Lines are modelled as \<open>string\<close> (lists of 8-bit characters).  On such characters the
  case-insensitive comparison of \<^verbatim>\<open>re.IGNORECASE\<close> is the comparison of the ASCII
  lower-case forms: no character below 256 other than an ASCII letter is the case
  variant of an ASCII letter.
\<close>

definition lower_char :: "char \<Rightarrow> char" where
  "lower_char c =
     (let n = (of_char c :: nat) in if 65 \<le> n \<and> n \<le> 90 then char_of (n + 32) else c)"

definition upper_char :: "char \<Rightarrow> char" where
  "upper_char c =
     (let n = (of_char c :: nat) in if 97 \<le> n \<and> n \<le> 122 then char_of (n - 32) else c)"

definition lower :: "string \<Rightarrow> string" where
  "lower s = map lower_char s"

text \<open>\<^verbatim>\<open>str.isspace\<close> restricted to code points below 256.\<close>

definition isspace :: "char \<Rightarrow> bool" where
  "isspace c =
     (let n = (of_char c :: nat)
      in (9 \<le> n \<and> n \<le> 13) \<or> (28 \<le> n \<and> n \<le> 32) \<or> n = 133 \<or> n = 160)"

text \<open>\<^verbatim>\<open>str.rstrip()\<close>: drop the trailing run of whitespace.\<close>

definition rstrip :: "string \<Rightarrow> string" where
  "rstrip s = rev (dropWhile isspace (rev s))"

definition newline :: char where
  "newline = CHR 0x0A"

definition carriage_return :: char where
  "carriage_return = CHR 0x0D"

text \<open>\<^verbatim>\<open>s.split('\n')\<close>: the result is never empty; \<^verbatim>\<open>''.split('\n') == ['']\<close>.\<close>

fun split_nl :: "string \<Rightarrow> string list" where
  "split_nl [] = [[]]"
| "split_nl (c # cs) =
     (if c = newline then [] # split_nl cs
      else (case split_nl cs of [] \<Rightarrow> [[c]] | l # ls \<Rightarrow> (c # l) # ls))"

section \<open>Regular expressions of the suppression rules\<close>

text \<open>
  The six patterns use literals, \<^verbatim>\<open>.\<close>, one character class, \<^verbatim>\<open>*\<close> and \<^verbatim>\<open>+\<close> on a
  single-character atom, and concatenation.  A pattern is a list of items.
\<close>

datatype atom =
    Lit char                      \<comment> \<open>a literal character (also an escaped one, \<^verbatim>\<open>\[\<close>)\<close>
  | Dot                           \<comment> \<open>\<^verbatim>\<open>.\<close>: any character except a newline\<close>
  | Cls "(char \<times> char) list"      \<comment> \<open>\<^verbatim>\<open>[a-b...]\<close>: a union of ranges\<close>

datatype item =
    One atom                      \<comment> \<open>\<^verbatim>\<open>a\<close>\<close>
  | Star atom                     \<comment> \<open>\<^verbatim>\<open>a*\<close>\<close>
  | Plus atom                     \<comment> \<open>\<^verbatim>\<open>a+\<close>\<close>

type_synonym pattern = "item list"

definition in_range :: "char \<times> char \<Rightarrow> char \<Rightarrow> bool" where
  "in_range r c = ((of_char (fst r) :: nat) \<le> of_char c \<and> (of_char c :: nat) \<le> of_char (snd r))"

text \<open>One character against one atom under \<^verbatim>\<open>re.IGNORECASE\<close>.\<close>

fun atom_ok :: "atom \<Rightarrow> char \<Rightarrow> bool" where
  "atom_ok (Lit a) c = (lower_char c = lower_char a)"
| "atom_ok Dot c = (c \<noteq> newline)"
| "atom_ok (Cls rs) c =
     list_ex (\<lambda>r. in_range r c \<or> in_range r (lower_char c) \<or> in_range r (upper_char c)) rs"

text \<open>Does the pattern match a prefix of the string?\<close>

function match_here :: "pattern \<Rightarrow> string \<Rightarrow> bool" where
  "match_here [] s = True"
| "match_here (One a # p) [] = False"
| "match_here (One a # p) (c # cs) = (atom_ok a c \<and> match_here p cs)"
| "match_here (Star a # p) [] = match_here p []"
| "match_here (Star a # p) (c # cs) =
     (match_here p (c # cs) \<or> (atom_ok a c \<and> match_here (Star a # p) cs))"
| "match_here (Plus a # p) [] = False"
| "match_here (Plus a # p) (c # cs) = (atom_ok a c \<and> match_here (Star a # p) cs)"
  by pat_completeness auto
termination
  by (relation "measures [\<lambda>(p, s). length s, \<lambda>(p, s). length p]") auto

text \<open>\<^verbatim>\<open>re.search(pattern, line, re.IGNORECASE)\<close> as a truth value: a match at some position.\<close>

fun re_search :: "pattern \<Rightarrow> string \<Rightarrow> bool" where
  "re_search p [] = match_here p []"
| "re_search p (c # cs) = (match_here p (c # cs) \<or> re_search p cs)"

definition lits :: "string \<Rightarrow> pattern" where
  "lits s = map (\<lambda>c. One (Lit c)) s"

definition hex_digit :: atom where
  "hex_digit = Cls [(CHR ''0'', CHR ''9''), (CHR ''a'', CHR ''f''), (CHR ''A'', CHR ''F'')]"

text \<open>A literal none of whose case variants is whitespace.\<close>

definition solid :: "char \<Rightarrow> bool" where
  "solid c = (\<forall>x. lower_char x = lower_char c \<longrightarrow> \<not> isspace x)"

section \<open>The two suppression filters\<close>

text \<open>The rule list of \<^verbatim>\<open>ScriptRunner.is_filtered_output\<close>, in source order.\<close>

definition output_filter_patterns :: "pattern list" where
  "output_filter_patterns =
    [ lits ''[I]'' @ [Star Dot] @ lits ''io timeout'',
      lits ''[I]'' @ [Star Dot] @ lits ''0x'' @ [Plus hex_digit] @ [Star Dot] @ lits ''io timeout'',
      lits ''io timeout'',
      lits ''[I]'' @ [Star Dot] @ lits ''socks5 client udp construct'',
      lits ''[E]'' @ [Star Dot] @ lits ''socks5 client res.rep 5'',
      lits ''[E]'' @ [Star Dot] @ lits ''socks5 session handshake'' ]"

definition is_filtered_output :: "string \<Rightarrow> bool" where
  "is_filtered_output line = list_ex (\<lambda>pattern. re_search pattern line) output_filter_patterns"

text \<open>The rule list of \<^verbatim>\<open>LogMonitor.is_filtered_log\<close>, in source order.\<close>

definition log_filter_patterns :: "pattern list" where
  "log_filter_patterns =
    [ lits ''[I]'' @ [Star Dot] @ lits ''io timeout'',
      lits ''[I]'' @ [Star Dot] @ lits ''0x'' @ [Plus hex_digit] @ [Star Dot] @ lits ''io timeout'',
      lits ''io timeout'',
      lits ''[I]'' @ [Star Dot] @ lits ''socks5 client udp construct'',
      lits ''[E]'' @ [Star Dot] @ lits ''socks5 client res.rep 5'',
      lits ''[E]'' @ [Star Dot] @ lits ''socks5 session handshake'' ]"

definition is_filtered_log :: "string \<Rightarrow> bool" where
  "is_filtered_log line = list_ex (\<lambda>pattern. re_search pattern line) log_filter_patterns"

section \<open>Exceptions, signals and observable effects\<close>

datatype exn =
    ProcessLookupError string     \<comment> \<open>the process (group) no longer exists\<close>
  | TimeoutExpired string         \<comment> \<open>\<^verbatim>\<open>subprocess.TimeoutExpired\<close>\<close>
  | OtherException string         \<comment> \<open>any other subclass of \<^verbatim>\<open>Exception\<close>\<close>

text \<open>\<^verbatim>\<open>str(e)\<close>\<close>

fun str_exn :: "exn \<Rightarrow> string" where
  "str_exn (ProcessLookupError m) = m"
| "str_exn (TimeoutExpired m) = m"
| "str_exn (OtherException m) = m"

datatype signal = SIGINT | SIGTERM | SIGKILL

text \<open>
  What a thread does to the outside: the Qt signals it emits, the POSIX signals it sends
  to the process group of the child, and the time it spends waiting.
\<close>

datatype effect =
    OutputSignal string           \<comment> \<open>\<^verbatim>\<open>output_signal.emit\<close>\<close>
  | StatusSignal string           \<comment> \<open>\<^verbatim>\<open>status_signal.emit\<close>\<close>
  | FinishedSignal int            \<comment> \<open>\<^verbatim>\<open>finished_signal.emit\<close>\<close>
  | LogSignal string              \<comment> \<open>\<^verbatim>\<open>log_signal.emit\<close>\<close>
  | Killpg signal                 \<comment> \<open>\<^verbatim>\<open>os.killpg(os.getpgid(pid), sig)\<close> delivered\<close>
  | Wait "nat option" "exn + int"
      \<comment> \<open>\<^verbatim>\<open>process.wait(timeout)\<close>, seconds, with its result: the exit code or the exception\<close>
  | Sleep nat                     \<comment> \<open>\<^verbatim>\<open>time.sleep\<close>, milliseconds\<close>

section \<open>ScriptRunner.run: the output reader\<close>

text \<open>
  One pass through the test of the \<^verbatim>\<open>while\<close> loop and, if it holds, the
  \<^verbatim>\<open>readline\<close> of the body: the value of \<^verbatim>\<open>self.running\<close> (written by \<^verbatim>\<open>stop\<close> from
  another thread), the result of \<^verbatim>\<open>process.poll()\<close> and what \<^verbatim>\<open>readline\<close> gives.
\<close>

record read_obs =
  obs_running :: bool
  obs_poll :: "int option"
  obs_readline :: "exn + string"

record run_env =
  env_popen :: "exn option"             \<comment> \<open>\<^verbatim>\<open>subprocess.Popen\<close> raising\<close>
  env_reads :: "read_obs list"          \<comment> \<open>the loop iterations observed\<close>
  env_poll_after :: "int option"        \<comment> \<open>\<^verbatim>\<open>poll()\<close> after the loop, if not yet known\<close>
  env_read_rest :: "exn + string"       \<comment> \<open>\<^verbatim>\<open>stdout.read()\<close> after the loop\<close>

text \<open>Lines 78-82: a non-empty \<^verbatim>\<open>readline\<close> result is stripped, filtered and emitted.\<close>

definition forward_output :: "string \<Rightarrow> effect list" where
  "forward_output line =
     (if line \<noteq> [] then
        (let stripped_line = rstrip line
         in if \<not> is_filtered_output stripped_line then [OutputSignal stripped_line] else [])
      else [])"

datatype loop_end =
    Left "int option"     \<comment> \<open>the test failed; \<open>Some rc\<close> when \<^verbatim>\<open>poll()\<close> gave the exit code\<close>
  | Raised exn            \<comment> \<open>\<^verbatim>\<open>readline\<close> raised\<close>
  | Pending               \<comment> \<open>the observations end with the loop still running\<close>

text \<open>Lines 76-82. \<^verbatim>\<open>poll()\<close> is not called when \<^verbatim>\<open>self.running\<close> is false.\<close>

fun read_loop :: "read_obs list \<Rightarrow> effect list \<times> loop_end" where
  "read_loop [] = ([], Pending)"
| "read_loop (ob # obs) =
     (if obs_running ob \<and> obs_poll ob = None then
        (case obs_readline ob of
           Inl e \<Rightarrow> ([], Raised e)
         | Inr line \<Rightarrow>
             (case read_loop obs of (out, r) \<Rightarrow> (forward_output line @ out, r)))
      else ([], Left (if obs_running ob then obs_poll ob else None)))"

text \<open>Lines 87-92: the rest of the stream, stripped at its end and split at newlines.\<close>

definition drain_remaining :: "string \<Rightarrow> effect list" where
  "drain_remaining remaining_output =
     (if remaining_output \<noteq> [] then
        concat (map (\<lambda>line. if line \<noteq> [] \<and> \<not> is_filtered_output line
                             then [OutputSignal line] else [])
                    (split_nl (rstrip remaining_output)))
      else [])"

text \<open>Lines 96-99: the handler of the \<^verbatim>\<open>try\<close> around the whole body.\<close>

definition run_handler :: "exn \<Rightarrow> effect list" where
  "run_handler e =
     [OutputSignal (''Error: '' @ str_exn e), StatusSignal ''Error occurred'', FinishedSignal 1]"

datatype run_end =
    Completed             \<comment> \<open>\<^verbatim>\<open>run\<close> returned normally\<close>
  | Handled exn           \<comment> \<open>\<^verbatim>\<open>run\<close> returned through its exception handler\<close>
  | Unfinished            \<comment> \<open>still in the read loop when the observations end\<close>

text \<open>Lines 84-94: after the loop.\<close>

definition after_loop :: "run_env \<Rightarrow> int option \<Rightarrow> effect list \<times> run_end" where
  "after_loop env known =
     (case (case known of Some rc \<Rightarrow> Some rc | None \<Rightarrow> env_poll_after env) of
        None \<Rightarrow> ([], Completed)
      | Some returncode \<Rightarrow>
          (case env_read_rest env of
             Inl e \<Rightarrow> (run_handler e, Handled e)
           | Inr remaining_output \<Rightarrow>
               (drain_remaining remaining_output @ [FinishedSignal returncode], Completed)))"

definition run :: "run_env \<Rightarrow> effect list \<times> run_end" where
  "run env =
     (case env_popen env of
        Some e \<Rightarrow> (StatusSignal ''Tunnel enabled.'' # run_handler e, Handled e)
      | None \<Rightarrow>
          (case read_loop (env_reads env) of
             (out, Pending) \<Rightarrow> (StatusSignal ''Tunnel enabled.'' # out, Unfinished)
           | (out, Raised e) \<Rightarrow>
               (StatusSignal ''Tunnel enabled.'' # out @ run_handler e, Handled e)
           | (out, Left known) \<Rightarrow>
               (case after_loop env known of
                  (fin, r) \<Rightarrow> (StatusSignal ''Tunnel enabled.'' # out @ fin, r))))"

text \<open>The lines \<^verbatim>\<open>readline\<close> returns in the loop, in order (an empty result is no line).\<close>

fun loop_lines :: "read_obs list \<Rightarrow> string list" where
  "loop_lines [] = []"
| "loop_lines (ob # obs) =
     (if obs_running ob \<and> obs_poll ob = None then
        (case obs_readline ob of
           Inl e \<Rightarrow> []
         | Inr line \<Rightarrow> (if line \<noteq> [] then [line] else []) @ loop_lines obs)
      else [])"

section \<open>ScriptRunner.stop: the shutdown sequence\<close>

text \<open>The \<^verbatim>\<open>subprocess.Popen\<close> object: \<open>returncode\<close> is set once an exit has been observed.\<close>

record popen =
  pid :: nat
  returncode :: "int option"

record script_runner =
  running :: bool
  process :: "popen option"

text \<open>
  What the operating system answers during one call of \<^verbatim>\<open>stop\<close>.  A \<^verbatim>\<open>killpg\<close> entry is
  the exception raised by \<^verbatim>\<open>os.getpgid\<close> or \<^verbatim>\<open>os.killpg\<close>, if any.
\<close>

record stop_env =
  se_poll :: "int option"
  se_killpg_int :: "exn option"
  se_wait_10 :: "exn + int"
  se_killpg_term :: "exn option"
  se_wait_3 :: "exn + int"
  se_killpg_kill :: "exn option"
  se_wait :: "exn + int"

text \<open>\<^verbatim>\<open>Popen.poll()\<close>: the cached exit code, else what the system reports, cached.\<close>

definition poll :: "int option \<Rightarrow> popen \<Rightarrow> popen \<times> int option" where
  "poll sys p =
     (case returncode p of
        Some rc \<Rightarrow> (p, Some rc)
      | None \<Rightarrow> (p\<lparr>returncode := sys\<rparr>, sys))"

text \<open>Lines 130-134: the two handlers of the outer \<^verbatim>\<open>try\<close>.\<close>

fun stop_handler :: "exn \<Rightarrow> effect list" where
  "stop_handler (ProcessLookupError m) = [OutputSignal ''[SYSTEM] Process already terminated'']"
| "stop_handler e = [OutputSignal (''[SYSTEM] Error stopping process: '' @ str_exn e)]"

text \<open>Each stage returns its effects and the exit code it has observed, if any.\<close>

text \<open>Lines 124-128.\<close>

definition stop_kill :: "stop_env \<Rightarrow> effect list \<times> int option" where
  "stop_kill env =
     (case se_killpg_kill env of
        Some e \<Rightarrow> (OutputSignal ''[SYSTEM] Force killing process...'' # stop_handler e, None)
      | None \<Rightarrow>
          (case se_wait env of
             Inr rc \<Rightarrow>
               ([OutputSignal ''[SYSTEM] Force killing process...'', Killpg SIGKILL,
                 Wait None (Inr rc), OutputSignal ''[SYSTEM] Process killed''], Some rc)
           | Inl e \<Rightarrow>
               ([OutputSignal ''[SYSTEM] Force killing process...'', Killpg SIGKILL,
                 Wait None (Inl e)] @ stop_handler e, None)))"

text \<open>Lines 117-128.\<close>

definition stop_term :: "stop_env \<Rightarrow> effect list \<times> int option" where
  "stop_term env =
     (case se_killpg_term env of
        Some e \<Rightarrow>
          (OutputSignal ''[SYSTEM] Clean shutdown timeout, forcing termination...''
             # stop_handler e, None)
      | None \<Rightarrow>
          (case se_wait_3 env of
             Inr rc \<Rightarrow>
               ([OutputSignal ''[SYSTEM] Clean shutdown timeout, forcing termination...'',
                 Killpg SIGTERM, Wait (Some 3) (Inr rc),
                 OutputSignal ''[SYSTEM] Process terminated''], Some rc)
           | Inl (TimeoutExpired m) \<Rightarrow>
               (case stop_kill env of
                  (out, rc) \<Rightarrow>
                    ([OutputSignal ''[SYSTEM] Clean shutdown timeout, forcing termination...'',
                      Killpg SIGTERM, Wait (Some 3) (Inl (TimeoutExpired m))] @ out, rc))
           | Inl e \<Rightarrow>
               ([OutputSignal ''[SYSTEM] Clean shutdown timeout, forcing termination...'',
                 Killpg SIGTERM, Wait (Some 3) (Inl e)] @ stop_handler e, None)))"

text \<open>Lines 105-134.\<close>

definition stop_int :: "stop_env \<Rightarrow> effect list \<times> int option" where
  "stop_int env =
     (case se_killpg_int env of
        Some e \<Rightarrow>
          (OutputSignal ''[SYSTEM] Sending SIGINT (Ctrl+C) to tunnel process...''
             # stop_handler e, None)
      | None \<Rightarrow>
          (case se_wait_10 env of
             Inr rc \<Rightarrow>
               ([OutputSignal ''[SYSTEM] Sending SIGINT (Ctrl+C) to tunnel process...'',
                 Killpg SIGINT, OutputSignal ''[SYSTEM] Waiting for clean shutdown...'',
                 Wait (Some 10) (Inr rc),
                 OutputSignal ''[SYSTEM] Process stopped cleanly''], Some rc)
           | Inl (TimeoutExpired m) \<Rightarrow>
               (case stop_term env of
                  (out, rc) \<Rightarrow>
                    ([OutputSignal ''[SYSTEM] Sending SIGINT (Ctrl+C) to tunnel process...'',
                      Killpg SIGINT, OutputSignal ''[SYSTEM] Waiting for clean shutdown...'',
                      Wait (Some 10) (Inl (TimeoutExpired m))] @ out, rc))
           | Inl e \<Rightarrow>
               ([OutputSignal ''[SYSTEM] Sending SIGINT (Ctrl+C) to tunnel process...'',
                 Killpg SIGINT, OutputSignal ''[SYSTEM] Waiting for clean shutdown...'',
                 Wait (Some 10) (Inl e)] @ stop_handler e, None)))"

text \<open>Lines 101-134.\<close>

definition stop :: "stop_env \<Rightarrow> script_runner \<Rightarrow> script_runner \<times> effect list" where
  "stop env self =
     (let self = self\<lparr>running := False\<rparr>
      in case process self of
           None \<Rightarrow> (self, [])
         | Some p \<Rightarrow>
             (case poll (se_poll env) p of
                (p, Some rc) \<Rightarrow> (self\<lparr>process := Some p\<rparr>, [])
              | (p, None) \<Rightarrow>
                  (case stop_int env of
                     (out, rc) \<Rightarrow> (self\<lparr>process := Some (p\<lparr>returncode := rc\<rparr>)\<rparr>, out))))"

text \<open>The POSIX signals delivered, in order.\<close>

fun signals_sent :: "effect list \<Rightarrow> signal list" where
  "signals_sent [] = []"
| "signals_sent (Killpg sig # es) = sig # signals_sent es"
| "signals_sent (e # es) = signals_sent es"

text \<open>
  The state machine of the shutdown coordinator as the specification describes it, read
  as an acceptor of the signals and waits of a trace.
\<close>

datatype stage =
    Idle | WaitingGraceful | SignalingTerm | WaitingTerm | SignalingKill | WaitingKill
  | Terminated

definition timed_out :: "exn + int \<Rightarrow> bool" where
  "timed_out r = (case r of Inl (TimeoutExpired m) \<Rightarrow> True | _ \<Rightarrow> False)"

fun coordinator :: "stage \<Rightarrow> effect list \<Rightarrow> bool" where
  "coordinator st [] = True"
| "coordinator st (Killpg sig # es) =
     (if st = Idle \<and> sig = SIGINT then coordinator WaitingGraceful es
      else if st = SignalingTerm \<and> sig = SIGTERM then coordinator WaitingTerm es
      else if st = SignalingKill \<and> sig = SIGKILL then coordinator WaitingKill es
      else False)"
| "coordinator st (Wait timeout r # es) =
     (if st = WaitingGraceful \<and> timeout = Some 10
      then coordinator (if timed_out r then SignalingTerm else Terminated) es
      else if st = WaitingTerm \<and> timeout = Some 3
      then coordinator (if timed_out r then SignalingKill else Terminated) es
      else if st = WaitingKill \<and> timeout = None then coordinator Terminated es
      else False)"
| "coordinator st (e # es) = coordinator st es"

text \<open>A trace of \<^verbatim>\<open>stop\<close> that ran to one of its three closing messages.\<close>

definition stop_succeeded :: "effect list \<Rightarrow> bool" where
  "stop_succeeded out =
     (out \<noteq> [] \<and>
      (last out = OutputSignal ''[SYSTEM] Process stopped cleanly'' \<or>
       last out = OutputSignal ''[SYSTEM] Process terminated'' \<or>
       last out = OutputSignal ''[SYSTEM] Process killed''))"

section \<open>LogMonitor.run: the log tailer\<close>

text \<open>
  One pass through a loop test of \<^verbatim>\<open>LogMonitor.run\<close>: what has been appended to the log
  file since the previous pass, the value of \<^verbatim>\<open>self.running\<close>, whether the file exists,
  and the exception raised by \<^verbatim>\<open>open\<close>/\<^verbatim>\<open>seek\<close> (outer loop) or by \<^verbatim>\<open>readline\<close> (inner
  loop), if any.
\<close>

record tick =
  tk_written :: string
  tk_running :: bool
  tk_exists :: bool
  tk_open :: "exn option"
  tk_readline :: "exn option"

datatype tailer =
    Detached              \<comment> \<open>at the test of the outer loop, no file open\<close>
  | Attached nat          \<comment> \<open>at the test of the inner loop, with the read cursor\<close>
  | Returned              \<comment> \<open>\<^verbatim>\<open>run\<close> has returned\<close>

text \<open>
  The file is opened by \<^verbatim>\<open>open(self.log_file, 'r')\<close>, in text mode with universal
  newlines: a line ends at a line feed, at a carriage return, or at a carriage return
  followed by a line feed, and each of these ends is returned as one \<^verbatim>\<open>'\n'\<close>.  A
  carriage return that is the last character the file holds ends the line when
  \<^verbatim>\<open>readline\<close> reaches the end of the file (a line feed written later is then an empty
  line of its own).  Without a line end the rest of the file is returned as it is.
  \<open>scan_line\<close> gives the line returned and the number of characters of the file used.
\<close>

fun scan_line :: "string \<Rightarrow> string \<times> nat" where
  "scan_line [] = ([], 0)"
| "scan_line (c # cs) =
     (if c = newline then ([newline], 1)
      else if c = carriage_return then
        (case cs of
           [] \<Rightarrow> ([newline], 1)
         | d # ds \<Rightarrow> if d = newline then ([newline], 2) else ([newline], 1))
      else (case scan_line cs of (line, used) \<Rightarrow> (c # line, Suc used)))"

text \<open>\<^verbatim>\<open>f.readline()\<close> at a cursor, and how far it moves the cursor.\<close>

definition readline_at :: "nat \<Rightarrow> string \<Rightarrow> string" where
  "readline_at cursor content = fst (scan_line (drop cursor content))"

definition consumed_at :: "nat \<Rightarrow> string \<Rightarrow> nat" where
  "consumed_at cursor content = snd (scan_line (drop cursor content))"

text \<open>Lines 174-178.\<close>

definition forward_log :: "string \<Rightarrow> effect list" where
  "forward_log line =
     (let stripped_line = rstrip line
      in if \<not> is_filtered_log stripped_line then [LogSignal stripped_line] else [])"

text \<open>Lines 183-185.\<close>

definition log_handler :: "exn \<Rightarrow> effect list" where
  "log_handler e = [LogSignal (''Log monitor error: '' @ str_exn e), Sleep 1000]"

text \<open>
  Lines 164-185, one loop test per tick; \<open>content\<close> is what the file holds before the
  tick and \<open>content @ tk_written t\<close> what it holds at the tick.  The result is what was
  emitted during the ticks and where the thread then stands.
\<close>

fun LogMonitor_run :: "tick list \<Rightarrow> tailer \<Rightarrow> string \<Rightarrow> effect list \<times> tailer" where
  "LogMonitor_run [] st content = ([], st)"
| "LogMonitor_run (t # ts) Returned content = ([], Returned)"
| "LogMonitor_run (t # ts) Detached content =
     (if \<not> tk_running t then ([], Returned)
      else if tk_exists t then
        (case tk_open t of
           Some e \<Rightarrow>
             (case LogMonitor_run ts Detached (content @ tk_written t) of
                (out, st) \<Rightarrow> (log_handler e @ out, st))
         | None \<Rightarrow>
             LogMonitor_run ts (Attached (length (content @ tk_written t)))
               (content @ tk_written t))
      else
        (case LogMonitor_run ts Detached (content @ tk_written t) of
           (out, st) \<Rightarrow> (Sleep 1000 # out, st)))"
| "LogMonitor_run (t # ts) (Attached cursor) content =
     (if \<not> tk_running t then LogMonitor_run ts Detached (content @ tk_written t)
      else
        (case tk_readline t of
           Some e \<Rightarrow>
             (case LogMonitor_run ts Detached (content @ tk_written t) of
                (out, st) \<Rightarrow> (log_handler e @ out, st))
         | None \<Rightarrow>
             if readline_at cursor (content @ tk_written t) \<noteq> [] then
               (case LogMonitor_run ts
                       (Attached (cursor + consumed_at cursor (content @ tk_written t)))
                       (content @ tk_written t) of
                  (out, st) \<Rightarrow>
                    (forward_log (readline_at cursor (content @ tk_written t)) @ out, st))
             else
               (case LogMonitor_run ts (Attached cursor) (content @ tk_written t) of
                  (out, st) \<Rightarrow> (Sleep 100 # out, st))))"

text \<open>
  What the reads of the ticks gave, in order: a line (an empty result is no line) or the
  exception that sent the thread to its handler.
\<close>

fun log_reads :: "tick list \<Rightarrow> tailer \<Rightarrow> string \<Rightarrow> (exn + string) list" where
  "log_reads [] st content = []"
| "log_reads (t # ts) Returned content = []"
| "log_reads (t # ts) Detached content =
     (if \<not> tk_running t then []
      else if \<not> tk_exists t then log_reads ts Detached (content @ tk_written t)
      else if tk_open t = None
      then log_reads ts (Attached (length (content @ tk_written t))) (content @ tk_written t)
      else Inl (the (tk_open t)) # log_reads ts Detached (content @ tk_written t))"
| "log_reads (t # ts) (Attached cursor) content =
     (if \<not> tk_running t then log_reads ts Detached (content @ tk_written t)
      else if tk_readline t \<noteq> None
      then Inl (the (tk_readline t)) # log_reads ts Detached (content @ tk_written t)
      else if readline_at cursor (content @ tk_written t) = []
      then log_reads ts (Attached cursor) (content @ tk_written t)
      else Inr (readline_at cursor (content @ tk_written t))
             # log_reads ts (Attached (cursor + consumed_at cursor (content @ tk_written t)))
                 (content @ tk_written t))"

text \<open>The texts carried by the \<^verbatim>\<open>log_signal\<close> emissions of a trace.\<close>

fun log_texts :: "effect list \<Rightarrow> string list" where
  "log_texts [] = []"
| "log_texts (LogSignal text # es) = text # log_texts es"
| "log_texts (e # es) = log_texts es"

text \<open>What the tailer emits for one read: the stripped line unless suppressed, or the report.\<close>

fun log_report :: "exn + string \<Rightarrow> string list" where
  "log_report (Inl e) = [''Log monitor error: '' @ str_exn e]"
| "log_report (Inr line) = (if is_filtered_log line then [] else [rstrip line])"

text \<open>The same place in a file that holds \<open>n\<close> more characters in front.\<close>

fun shift :: "nat \<Rightarrow> tailer \<Rightarrow> tailer" where
  "shift n Detached = Detached"
| "shift n (Attached cursor) = Attached (n + cursor)"
| "shift n Returned = Returned"

section \<open>PDNRWTGui: the window that starts and stops the threads\<close>

datatype doc_item =
    Logo                  \<comment> \<open>the banner of \<^verbatim>\<open>display_logo\<close>\<close>
  | Rule                  \<comment> \<open>the line of sixty box-drawing characters\<close>
  | Plain string          \<comment> \<open>text appended as it is\<close>
  | Stamped string        \<comment> \<open>text appended behind a time stamp\<close>

record log_monitor =
  log_file :: string
  lm_running :: bool

record gui =
  script_runner :: "script_runner option"
  log_monitor :: "log_monitor option"
  workspace :: string
  stopping :: bool
  start_btn_enabled :: bool
  stop_btn_enabled :: bool
  status_bar :: string
  output_text :: "doc_item list"
  log_timer :: "nat option"     \<comment> \<open>the pending single-shot interval in milliseconds\<close>

datatype action =
    Critical string string      \<comment> \<open>\<^verbatim>\<open>QMessageBox.critical\<close>: title and text\<close>
  | StartScriptRunner           \<comment> \<open>\<^verbatim>\<open>script_runner.start()\<close>\<close>
  | StartLogMonitor string      \<comment> \<open>\<^verbatim>\<open>log_monitor.start()\<close> on a file\<close>

text \<open>Lines 402-418; the scrolling of the view is left out.\<close>

definition append_output :: "string \<Rightarrow> gui \<Rightarrow> gui" where
  "append_output text g =
     (if prefix ''[LOG]'' text \<or> prefix ''[SYSTEM]'' text \<or> sublist ''tcp'' (lower text)
      then g\<lparr>output_text := output_text g @ [Stamped text]\<rparr>
      else g\<lparr>output_text := output_text g @ [Plain text]\<rparr>)"

record start_env =
  st_script_exists :: bool          \<comment> \<open>\<^verbatim>\<open>os.path.exists(script_path)\<close>\<close>
  st_sudo :: "exn + int"            \<comment> \<open>\<^verbatim>\<open>subprocess.run(['sudo', '-n', 'true'])\<close>: the return code\<close>
  st_script_dir :: string           \<comment> \<open>\<^verbatim>\<open>os.path.dirname(os.path.realpath(script_path))\<close>\<close>

text \<open>Lines 329-371.\<close>

definition start_tunnel :: "start_env \<Rightarrow> gui \<Rightarrow> gui \<times> action list" where
  "start_tunnel env g =
     (if \<not> st_script_exists env then
        (g, [Critical ''Error'' ''Script file 'pdanet_rwt.sh' not found in current directory''])
      else
        (case st_sudo env of
           Inl e \<Rightarrow>
             (g, [Critical ''Error'' (''Unable to execute sudo command: '' @ str_exn e)])
         | Inr code \<Rightarrow>
             if code \<noteq> 0 then
               (g, [Critical ''Error''
                  ''This script requires sudo privileges. Please run with sudo or configure passwordless sudo.''])
             else
               (g\<lparr>start_btn_enabled := False, stop_btn_enabled := True, stopping := False,
                  status_bar := ''Tunnel enabled.'', output_text := [Logo],
                  script_runner := Some \<lparr>running = False, process = None\<rparr>,
                  workspace := st_script_dir env, log_timer := Some 2000\<rparr>,
                [StartScriptRunner])))"

text \<open>\<^verbatim>\<open>max(log_files, key=os.path.getctime)\<close>: the first file of the greatest creation time.\<close>

fun latest_of :: "string \<times> nat \<Rightarrow> (string \<times> nat) list \<Rightarrow> string" where
  "latest_of best [] = fst best"
| "latest_of best (f # fs) = latest_of (if snd best < snd f then f else best) fs"

text \<open>\<^verbatim>\<open>os.path.basename\<close>\<close>

definition basename :: "string \<Rightarrow> string" where
  "basename path = rev (takeWhile (\<lambda>c. c \<noteq> CHR ''/'') (rev path))"

text \<open>
  Lines 313-327, on the result of \<^verbatim>\<open>glob.glob\<close>: the files found, each with its creation time.
\<close>

definition start_log_monitoring :: "(string \<times> nat) list \<Rightarrow> gui \<Rightarrow> gui \<times> action list" where
  "start_log_monitoring log_files g =
     (if workspace g \<noteq> [] then
        (case log_files of
           f # fs \<Rightarrow>
             (let latest_log = latest_of f fs;
                  g = g\<lparr>log_monitor := Some \<lparr>log_file = latest_log, lm_running = False\<rparr>\<rparr>;
                  g = append_output
                        (''[LOG] Started logging: '' @ basename latest_log @ '' (filtered)'') g
              in (g\<lparr>output_text := output_text g @ [Rule]\<rparr>, [StartLogMonitor latest_log]))
         | [] \<Rightarrow> (g\<lparr>log_timer := Some 2000\<rparr>, []))
      else (g, []))"

text \<open>
  The single-shot timer: each time it fires it is no longer pending and
  \<^verbatim>\<open>start_log_monitoring\<close> runs on the files found then.  The result also gives the
  intervals after which the timer fired.
\<close>

fun discovery :: "(string \<times> nat) list list \<Rightarrow> gui \<Rightarrow> (gui \<times> action list) \<times> nat list" where
  "discovery [] g = ((g, []), [])"
| "discovery (log_files # later) g =
     (case log_timer g of
        None \<Rightarrow> ((g, []), [])
      | Some ms \<Rightarrow>
          (case start_log_monitoring log_files (g\<lparr>log_timer := None\<rparr>) of
             (g, acts) \<Rightarrow>
               (case discovery later g of
                  ((g, acts'), fired) \<Rightarrow> ((g, acts @ acts'), ms # fired))))"

record stop_tunnel_env =
  sn_runner_isRunning :: bool       \<comment> \<open>\<^verbatim>\<open>script_runner.isRunning()\<close>\<close>
  sn_stop :: stop_env               \<comment> \<open>what the system answers during \<^verbatim>\<open>script_runner.stop()\<close>\<close>
  sn_runner_wait :: bool            \<comment> \<open>\<^verbatim>\<open>script_runner.wait(12000)\<close>\<close>
  sn_log_isRunning :: bool          \<comment> \<open>\<^verbatim>\<open>log_monitor.isRunning()\<close>\<close>
  sn_log_wait :: bool               \<comment> \<open>\<^verbatim>\<open>log_monitor.wait(3000)\<close>\<close>

text \<open>The slot connected to \<^verbatim>\<open>output_signal\<close>, for what \<^verbatim>\<open>stop\<close> emits from the GUI thread.\<close>

fun deliver :: "effect list \<Rightarrow> gui \<Rightarrow> gui" where
  "deliver [] g = g"
| "deliver (OutputSignal text # es) g = deliver es (append_output text g)"
| "deliver (e # es) g = deliver es g"

text \<open>Lines 382-387.\<close>

definition stop_runner :: "stop_tunnel_env \<Rightarrow> gui \<Rightarrow> gui \<times> effect list" where
  "stop_runner env g =
     (case script_runner g of
        None \<Rightarrow> (g, [])
      | Some r \<Rightarrow>
          if sn_runner_isRunning env then
            (case stop (sn_stop env) r of
               (r, out) \<Rightarrow>
                 (let g = deliver out (g\<lparr>script_runner := Some r\<rparr>)
                  in if \<not> sn_runner_wait env
                     then (append_output ''[SYSTEM] Warning: Script thread did not stop cleanly'' g, out)
                     else (g, out)))
          else (g, []))"

text \<open>Lines 389-393.\<close>

definition stop_log :: "stop_tunnel_env \<Rightarrow> gui \<Rightarrow> gui" where
  "stop_log env g =
     (case log_monitor g of
        None \<Rightarrow> g
      | Some m \<Rightarrow>
          if sn_log_isRunning env then
            (let g = g\<lparr>log_monitor := Some (m\<lparr>lm_running := False\<rparr>)\<rparr>
             in if \<not> sn_log_wait env
                then append_output ''[SYSTEM] Warning: Log monitor did not stop cleanly'' g
                else g)
          else g)"

text \<open>Lines 373-400.\<close>

definition stop_tunnel :: "stop_tunnel_env \<Rightarrow> gui \<Rightarrow> gui \<times> effect list" where
  "stop_tunnel env g =
     (if stopping g then (g, [])
      else
        (let g = g\<lparr>stopping := True, stop_btn_enabled := False,
                   status_bar := ''Stopping tunnel...''\<rparr>
         in case stop_runner env g of
              (g, out) \<Rightarrow>
                (let g = stop_log env g;
                     g = g\<lparr>start_btn_enabled := True, stop_btn_enabled := False,
                            stopping := False, status_bar := ''Tunnel stopped.''\<rparr>
                 in (append_output ''[SYSTEM] Tunnel stop sequence completed'' g, out))))"

section \<open>Concrete executions\<close>

text \<open>
  Observations and environments on which the model is run: loop passes of the reader,
  ticks of the tailer, answers of the system to \<^verbatim>\<open>stop\<close>, and states of the window.
\<close>

definition reading :: "string \<Rightarrow> read_obs" where
  "reading line = \<lparr>obs_running = True, obs_poll = None, obs_readline = Inr line\<rparr>"

definition exited :: "int \<Rightarrow> read_obs" where
  "exited rc = \<lparr>obs_running = True, obs_poll = Some rc, obs_readline = Inr []\<rparr>"

definition stopped :: read_obs where
  "stopped = \<lparr>obs_running = False, obs_poll = None, obs_readline = Inr []\<rparr>"

text \<open>Scenario C of the specification: a noise line, a substantive line, exit with code 0.\<close>

definition scenario_C :: run_env where
  "scenario_C =
     \<lparr>env_popen = None,
      env_reads = [reading (''[I] 0x1a2b io timeout'' @ [newline]),
                   reading (''connected to peer 10.0.0.1'' @ [newline]),
                   exited 0],
      env_poll_after = None,
      env_read_rest = Inr []\<rparr>"

definition appended :: "string \<Rightarrow> tick" where
  "appended text =
     \<lparr>tk_written = text, tk_running = True, tk_exists = True, tk_open = None, tk_readline = None\<rparr>"

text \<open>A child whose last output, read after its exit, holds an empty line.\<close>

definition blank_in_rest :: run_env where
  "blank_in_rest =
     \<lparr>env_popen = None,
      env_reads = [reading (''starting'' @ [newline]), reading [newline], exited 0],
      env_poll_after = None,
      env_read_rest = Inr (''done'' @ [newline, newline] @ ''bye'' @ [newline])\<rparr>"

text \<open>\<^verbatim>\<open>stop\<close> clears \<^verbatim>\<open>running\<close>; after the loop the child is seen to have exited.\<close>

definition stopped_then_drained :: run_env where
  "stopped_then_drained =
     \<lparr>env_popen = None,
      env_reads = [reading (''up'' @ [newline]), stopped],
      env_poll_after = Some 130,
      env_read_rest = Inr (''closing'' @ [newline, newline] @ ''partial'')\<rparr>"

text \<open>The child exits with code 3; reading the rest of its output raises.\<close>

definition rest_unreadable :: run_env where
  "rest_unreadable =
     \<lparr>env_popen = None,
      env_reads = [reading (''up'' @ [newline]), exited 3],
      env_poll_after = None,
      env_read_rest = Inl (OtherException ''invalid start byte'')\<rparr>"

text \<open>
  \<^verbatim>\<open>stop\<close> clears \<^verbatim>\<open>running\<close> while the child runs; \<^verbatim>\<open>readline\<close> then returns the
  end of the stream, and the \<^verbatim>\<open>poll()\<close> after the loop still returns \<^verbatim>\<open>None\<close>.
\<close>

definition left_while_alive :: run_env where
  "left_while_alive =
     \<lparr>env_popen = None,
      env_reads = [reading (''up'' @ [newline]), reading [], stopped],
      env_poll_after = None,
      env_read_rest = Inr []\<rparr>"

definition alive :: script_runner where
  "alive = \<lparr>running = True, process = Some \<lparr>pid = 4242, returncode = None\<rparr>\<rparr>"

text \<open>A child that ignores interrupt and terminate.\<close>

definition stubborn_child :: stop_env where
  "stubborn_child =
     \<lparr>se_poll = None, se_killpg_int = None, se_wait_10 = Inl (TimeoutExpired ''timed out''),
      se_killpg_term = None, se_wait_3 = Inl (TimeoutExpired ''timed out''),
      se_killpg_kill = None, se_wait = Inr (-9)\<rparr>"

text \<open>A child that is gone when the terminate signal is to be sent.\<close>

definition child_vanished :: stop_env where
  "child_vanished =
     \<lparr>se_poll = None, se_killpg_int = None, se_wait_10 = Inl (TimeoutExpired ''timed out''),
      se_killpg_term = Some (ProcessLookupError ''[Errno 3] No such process''),
      se_wait_3 = Inr 0, se_killpg_kill = None, se_wait = Inr 0\<rparr>"

definition tunnel_running :: gui where
  "tunnel_running =
     \<lparr>script_runner = Some alive, log_monitor = None,
      workspace = ''/usr/local/bin/pdanet-rwt-bin'', stopping = False,
      start_btn_enabled = False, stop_btn_enabled = True, status_bar = ''Tunnel enabled.'',
      output_text = [Logo], log_timer = None\<rparr>"

text \<open>A child that exits on the interrupt.\<close>

definition obedient_child :: stop_env where
  "obedient_child =
     \<lparr>se_poll = None, se_killpg_int = None, se_wait_10 = Inr 130,
      se_killpg_term = None, se_wait_3 = Inr 0, se_killpg_kill = None, se_wait = Inr 0\<rparr>"

definition pressing_stop :: "stop_env \<Rightarrow> stop_tunnel_env" where
  "pressing_stop env =
     \<lparr>sn_runner_isRunning = True, sn_stop = env, sn_runner_wait = True,
      sn_log_isRunning = False, sn_log_wait = True\<rparr>"

text \<open>The system refuses the terminate signal.\<close>

definition term_refused :: stop_env where
  "term_refused =
     \<lparr>se_poll = None, se_killpg_int = None, se_wait_10 = Inl (TimeoutExpired ''timed out''),
      se_killpg_term = Some (OtherException ''[Errno 1] Operation not permitted''),
      se_wait_3 = Inr 0, se_killpg_kill = None, se_wait = Inr 0\<rparr>"

definition window_ready :: gui where
  "window_ready =
     \<lparr>script_runner = None, log_monitor = None, workspace = [], stopping = False,
      start_btn_enabled = True, stop_btn_enabled = False, status_bar = ''Ready.'',
      output_text = [Logo], log_timer = None\<rparr>"

definition no_sudo :: start_env where
  "no_sudo =
     \<lparr>st_script_exists = True, st_sudo = Inr 1,
      st_script_dir = ''/usr/local/bin/pdanet-rwt-bin''\<rparr>"

definition all_set :: start_env where
  "all_set =
     \<lparr>st_script_exists = True, st_sudo = Inr 0,
      st_script_dir = ''/usr/local/bin/pdanet-rwt-bin''\<rparr>"

definition absent :: "string \<Rightarrow> tick" where
  "absent text =
     \<lparr>tk_written = text, tk_running = True, tk_exists = False, tk_open = None, tk_readline = None\<rparr>"

definition launched :: gui where
  "launched = fst (start_tunnel all_set window_ready)"

section \<open>Properties of the matcher\<close>

lemma match_here_lits:
  "match_here (lits w) s \<longleftrightarrow> length w \<le> length s \<and> lower (take (length w) s) = lower w"
proof (induction w arbitrary: s)
  case Nil
  then show ?case by (simp add: lits_def lower_def)
next
  case (Cons a w)
  then show ?case by (cases s) (auto simp: lits_def lower_def)
qed

lemma re_search_iff: "re_search p s \<longleftrightarrow> (\<exists>t. suffix t s \<and> match_here p t)"
proof (induction s)
  case Nil
  then show ?case by simp
next
  case (Cons c cs)
  then show ?case by (auto simp: suffix_Cons)
qed

lemma match_here_append:
  "match_here (p @ q) s \<Longrightarrow> \<exists>t. suffix t s \<and> match_here q t"
proof (induction p s rule: match_here.induct)
  case (1 s)
  then show ?case by auto
next
  case (2 a p)
  then show ?case by simp
next
  case (3 a p c cs)
  then show ?case by (auto simp: suffix_Cons)
next
  case (4 a p)
  then show ?case by simp
next
  case (5 a p c cs)
  then show ?case by (auto simp: suffix_Cons)
next
  case (6 a p)
  then show ?case by simp
next
  case (7 a p c cs)
  then show ?case by (auto simp: suffix_Cons)
qed

lemma re_search_append: "re_search (p @ q) s \<Longrightarrow> re_search q s"
  using match_here_append suffix_order.trans unfolding re_search_iff by blast

lemma re_search_lits: "re_search (lits w) s \<longleftrightarrow> sublist (lower w) (lower s)"
proof
  assume "re_search (lits w) s"
  then obtain t where t: "suffix t s" "match_here (lits w) t"
    unfolding re_search_iff by blast
  from t(1) obtain pre where s: "s = pre @ t" by (auto simp: suffix_def)
  from t(2) have "lower (take (length w) t) = lower w" by (simp add: match_here_lits)
  then have "lower s = lower pre @ lower w @ lower (drop (length w) t)"
    unfolding s lower_def by (metis append_take_drop_id map_append)
  then show "sublist (lower w) (lower s)" unfolding sublist_def by blast
next
  assume "sublist (lower w) (lower s)"
  then obtain ps ss where "lower s = ps @ lower w @ ss" unfolding sublist_def by blast
  then obtain a b c where abc: "s = a @ b @ c" "map lower_char b = lower w"
    unfolding lower_def by (auto simp: map_eq_append_conv append_eq_map_conv)
  then have "length b = length w" unfolding lower_def by (metis length_map)
  with abc have "match_here (lits w) (b @ c)"
    by (simp add: match_here_lits lower_def)
  moreover have "suffix (b @ c) s" unfolding abc by (simp add: suffix_def)
  ultimately show "re_search (lits w) s" unfolding re_search_iff by blast
qed

lemma filters_agree: "is_filtered_log line = is_filtered_output line"
  by (simp add: is_filtered_log_def is_filtered_output_def log_filter_patterns_def
      output_filter_patterns_def)

lemma io_timeout_filtered:
  "sublist ''io timeout'' (lower line) \<Longrightarrow> is_filtered_output line"
proof -
  assume "sublist ''io timeout'' (lower line)"
  moreover have "lower ''io timeout'' = ''io timeout''" by (simp add: lower_def lower_char_def)
  ultimately have "re_search (lits ''io timeout'') line" by (simp add: re_search_lits)
  then show ?thesis by (simp add: is_filtered_output_def output_filter_patterns_def)
qed

section \<open>Stripping and matching\<close>

lemma isspace_lower_char: "isspace (lower_char c) = isspace c"
  by (auto simp: isspace_def lower_char_def Let_def)

lemma rstrip_Nil: "rstrip [] = []" by (simp add: rstrip_def)

lemma rstrip_append_nonspace: "\<not> isspace c \<Longrightarrow> rstrip (xs @ c # ys) = xs @ c # rstrip ys"
  by (simp add: rstrip_def dropWhile_append)

lemma rstrip_append_nonempty: "rstrip ys \<noteq> [] \<Longrightarrow> rstrip (xs @ ys) = xs @ rstrip ys"
  by (auto simp: rstrip_def dropWhile_append)

lemma rstrip_prefix: "prefix (rstrip s) s"
proof -
  have "suffix (dropWhile isspace (rev s)) (rev s)" by (rule suffix_dropWhile)
  then show ?thesis unfolding rstrip_def by (metis rev_rev_ident suffix_to_prefix)
qed

lemma match_here_Star_skip: "match_here p s \<Longrightarrow> match_here (Star a # p) s"
  by (cases s) auto

lemma match_here_extend: "match_here p s \<Longrightarrow> match_here p (s @ t)"
  by (induction p s rule: match_here.induct) (auto simp: match_here_Star_skip)

lemma re_search_extend: "re_search p s \<Longrightarrow> re_search p (s @ t)"
  unfolding re_search_iff
proof -
  assume "\<exists>u. suffix u s \<and> match_here p u"
  then obtain u where "suffix u s" "match_here p u" by blast
  then have "suffix (u @ t) (s @ t)" "match_here p (u @ t)"
    by (auto simp: suffix_def match_here_extend)
  then show "\<exists>u. suffix u (s @ t) \<and> match_here p u" by blast
qed

lemma match_here_One_end_Nil: "\<not> match_here (p @ [One a]) []"
  by (induction p "[] :: string" rule: match_here.induct) auto

lemma match_here_rstrip:
  assumes "solid c"
  shows "match_here (p @ [One (Lit c)]) s \<Longrightarrow> match_here (p @ [One (Lit c)]) (rstrip s)"
proof (induction p s rule: match_here.induct)
  case (1 s)
  then obtain x xs where s: "s = x # xs" "lower_char x = lower_char c"
    by (cases s) auto
  with assms have "\<not> isspace x" by (simp add: solid_def)
  then have "rstrip s = x # rstrip xs" unfolding s using rstrip_append_nonspace[of x "[]" xs] by simp
  with s show ?case by simp
next
  case (2 a p)
  then show ?case by simp
next
  case (3 a p x xs)
  then have m: "atom_ok a x" "match_here (p @ [One (Lit c)]) (rstrip xs)" by auto
  then have "rstrip xs \<noteq> []" using match_here_One_end_Nil by metis
  then have "rstrip (x # xs) = x # rstrip xs" using rstrip_append_nonempty[of xs "[x]"] by simp
  with m show ?case by simp
next
  case (4 a p)
  then show ?case by (simp add: rstrip_Nil)
next
  case (5 a p x xs)
  from "5.prems" consider "match_here (p @ [One (Lit c)]) (x # xs)"
    | "atom_ok a x" "match_here (Star a # p @ [One (Lit c)]) xs" by auto
  then show ?case
  proof cases
    case 1
    then have "match_here (p @ [One (Lit c)]) (rstrip (x # xs))" using "5.IH"(1) by simp
    then show ?thesis using match_here_Star_skip by simp
  next
    case 2
    then have m: "match_here ((Star a # p) @ [One (Lit c)]) (rstrip xs)" using "5.IH"(2) by simp
    then have "rstrip xs \<noteq> []" using match_here_One_end_Nil by metis
    then have "rstrip (x # xs) = x # rstrip xs" using rstrip_append_nonempty[of xs "[x]"] by simp
    with m 2 show ?thesis by simp
  qed
next
  case (6 a p)
  then show ?case by simp
next
  case (7 a p x xs)
  then have m: "atom_ok a x" "match_here ((Star a # p) @ [One (Lit c)]) (rstrip xs)" by auto
  then have "rstrip xs \<noteq> []" using match_here_One_end_Nil by metis
  then have "rstrip (x # xs) = x # rstrip xs" using rstrip_append_nonempty[of xs "[x]"] by simp
  with m show ?case by simp
qed

lemma re_search_rstrip:
  assumes "solid c"
  shows "re_search (p @ [One (Lit c)]) (rstrip s) = re_search (p @ [One (Lit c)]) s"
proof
  assume "re_search (p @ [One (Lit c)]) (rstrip s)"
  then show "re_search (p @ [One (Lit c)]) s"
    using re_search_extend rstrip_prefix by (metis prefix_def)
next
  assume "re_search (p @ [One (Lit c)]) s"
  then obtain pre t where s: "s = pre @ t" and m: "match_here (p @ [One (Lit c)]) t"
    unfolding re_search_iff suffix_def by blast
  from m have m': "match_here (p @ [One (Lit c)]) (rstrip t)" by (rule match_here_rstrip[OF assms])
  then have "rstrip t \<noteq> []" using match_here_One_end_Nil by metis
  then have "rstrip s = pre @ rstrip t" unfolding s by (rule rstrip_append_nonempty)
  with m' show "re_search (p @ [One (Lit c)]) (rstrip s)"
    unfolding re_search_iff suffix_def by blast
qed

lemma solid_t: "solid CHR ''t''"
  by (auto simp: solid_def isspace_def lower_char_def Let_def split: if_splits)
lemma solid_e: "solid CHR ''e''"
  by (auto simp: solid_def isspace_def lower_char_def Let_def split: if_splits)
lemma solid_5: "solid CHR ''5''"
  by (auto simp: solid_def isspace_def lower_char_def Let_def split: if_splits)

section \<open>What the reader forwards\<close>

lemma is_filtered_output_rstrip: "is_filtered_output (rstrip s) = is_filtered_output s"
proof -
  have t: "lits ''io timeout'' = lits ''io timeou'' @ [One (Lit CHR ''t'')]"
    and c: "lits ''socks5 client udp construct'' = lits ''socks5 client udp construc'' @ [One (Lit CHR ''t'')]"
    and r: "lits ''socks5 client res.rep 5'' = lits ''socks5 client res.rep '' @ [One (Lit CHR ''5'')]"
    and h: "lits ''socks5 session handshake'' = lits ''socks5 session handshak'' @ [One (Lit CHR ''e'')]"
    by (simp_all add: lits_def)
  have 1: "re_search (lits ''[I]'' @ [Star Dot] @ lits ''io timeout'') (rstrip s)
         = re_search (lits ''[I]'' @ [Star Dot] @ lits ''io timeout'') s"
    unfolding t using re_search_rstrip[OF solid_t, of "lits ''[I]'' @ [Star Dot] @ lits ''io timeou''" s]
    by simp
  have 2: "re_search (lits ''[I]'' @ [Star Dot] @ lits ''0x'' @ [Plus hex_digit] @ [Star Dot] @ lits ''io timeout'') (rstrip s)
         = re_search (lits ''[I]'' @ [Star Dot] @ lits ''0x'' @ [Plus hex_digit] @ [Star Dot] @ lits ''io timeout'') s"
    unfolding t using re_search_rstrip[OF solid_t, of "lits ''[I]'' @ [Star Dot] @ lits ''0x'' @ [Plus hex_digit] @ [Star Dot] @ lits ''io timeou''" s]
    by simp
  have 3: "re_search (lits ''io timeout'') (rstrip s) = re_search (lits ''io timeout'') s"
    unfolding t by (rule re_search_rstrip[OF solid_t])
  have 4: "re_search (lits ''[I]'' @ [Star Dot] @ lits ''socks5 client udp construct'') (rstrip s)
         = re_search (lits ''[I]'' @ [Star Dot] @ lits ''socks5 client udp construct'') s"
    unfolding c using re_search_rstrip[OF solid_t, of "lits ''[I]'' @ [Star Dot] @ lits ''socks5 client udp construc''" s]
    by simp
  have 5: "re_search (lits ''[E]'' @ [Star Dot] @ lits ''socks5 client res.rep 5'') (rstrip s)
         = re_search (lits ''[E]'' @ [Star Dot] @ lits ''socks5 client res.rep 5'') s"
    unfolding r using re_search_rstrip[OF solid_5, of "lits ''[E]'' @ [Star Dot] @ lits ''socks5 client res.rep ''" s]
    by simp
  have 6: "re_search (lits ''[E]'' @ [Star Dot] @ lits ''socks5 session handshake'') (rstrip s)
         = re_search (lits ''[E]'' @ [Star Dot] @ lits ''socks5 session handshake'') s"
    unfolding h using re_search_rstrip[OF solid_e, of "lits ''[E]'' @ [Star Dot] @ lits ''socks5 session handshak''" s]
    by simp
  show ?thesis
    unfolding is_filtered_output_def output_filter_patterns_def list_ex_Cons_iff list_ex_Nil_iff 1 2 3 4 5 6 ..
qed

lemma forward_output_eq:
  "forward_output line =
     map (OutputSignal \<circ> rstrip) (filter (\<lambda>l. \<not> is_filtered_output l) (if line \<noteq> [] then [line] else []))"
  by (simp add: forward_output_def Let_def is_filtered_output_rstrip)

lemma loop_lines_stop:
  "\<not> (obs_running ob \<and> obs_poll ob = None) \<Longrightarrow> loop_lines (ob # obs) = []"
  by auto

lemma loop_lines_raise:
  "obs_running ob \<Longrightarrow> obs_poll ob = None \<Longrightarrow> obs_readline ob = Inl e \<Longrightarrow>
   loop_lines (ob # obs) = []"
  by simp

lemma loop_lines_line:
  "obs_running ob \<Longrightarrow> obs_poll ob = None \<Longrightarrow> obs_readline ob = Inr line \<Longrightarrow>
   loop_lines (ob # obs) = (if line \<noteq> [] then [line] else []) @ loop_lines obs"
  by simp

lemma read_loop_eq:
  "fst (read_loop obs) =
     map (OutputSignal \<circ> rstrip) (filter (\<lambda>l. \<not> is_filtered_output l) (loop_lines obs))"
proof (induction obs)
  case Nil
  then show ?case by simp
next
  case (Cons ob obs)
  obtain out r where rl: "read_loop obs = (out, r)" by (cases "read_loop obs")
  with Cons have h: "out = map (OutputSignal \<circ> rstrip) (filter (\<lambda>l. \<not> is_filtered_output l) (loop_lines obs))"
    by simp
  show ?case
  proof (cases "obs_running ob \<and> obs_poll ob = None")
    case False
    then have "fst (read_loop (ob # obs)) = []" by auto
    moreover from False have "loop_lines (ob # obs) = []" by (rule loop_lines_stop)
    ultimately show ?thesis by (simp del: loop_lines.simps read_loop.simps)
  next
    case True
    show ?thesis
    proof (cases "obs_readline ob")
      case (Inl e)
      with True show ?thesis by (simp add: loop_lines_raise del: loop_lines.simps)
    next
      case (Inr line)
      with True rl h show ?thesis
        by (simp add: loop_lines_line forward_output_eq del: loop_lines.simps)
    qed
  qed
qed

lemma drain_remaining_eq:
  "drain_remaining rest =
     map OutputSignal (filter (\<lambda>l. l \<noteq> [] \<and> \<not> is_filtered_output l) (split_nl (rstrip rest)))"
proof -
  have *: "concat (map (\<lambda>line. if P line then [OutputSignal line] else []) ls)
         = map OutputSignal (filter P ls)" for P ls
    by (induction ls) auto
  show ?thesis
    by (cases "rest = []") (simp_all add: drain_remaining_def * rstrip_Nil)
qed

lemma is_filtered_log_rstrip: "is_filtered_log (rstrip s) = is_filtered_log s"
  by (simp add: filters_agree is_filtered_output_rstrip)

lemma forward_output_filtered: "is_filtered_output line \<Longrightarrow> forward_output line = []"
  by (simp add: forward_output_def Let_def is_filtered_output_rstrip)

lemma forward_log_filtered: "is_filtered_log line \<Longrightarrow> forward_log line = []"
  by (simp add: forward_log_def Let_def is_filtered_log_rstrip)

lemma drain_remaining_unfiltered:
  "OutputSignal line \<in> set (drain_remaining rest) \<Longrightarrow> \<not> is_filtered_output line"
  by (auto simp: drain_remaining_eq)

lemma read_loop_unfiltered:
  "OutputSignal line \<in> set (fst (read_loop obs)) \<Longrightarrow> \<not> is_filtered_output line"
  by (auto simp: read_loop_eq is_filtered_output_rstrip)

section \<open>What the tailer forwards\<close>

lemma log_texts_append: "log_texts (xs @ ys) = log_texts xs @ log_texts ys"
  by (induction xs rule: log_texts.induct) auto

lemma log_texts_forward_log: "log_texts (forward_log line) = log_report (Inr line)"
  by (simp add: forward_log_def Let_def is_filtered_log_rstrip)

lemma log_texts_log_handler: "log_texts (log_handler e) = log_report (Inl e)"
  by (simp add: log_handler_def)

lemma LogSignal_in_iff: "LogSignal text \<in> set es \<longleftrightarrow> text \<in> set (log_texts es)"
  by (induction es rule: log_texts.induct) auto

lemma LogMonitor_run_texts:
  "log_texts (fst (LogMonitor_run ts st content)) = concat (map log_report (log_reads ts st content))"
proof (induction ts st content rule: LogMonitor_run.induct)
  case (1 st content)
  then show ?case by simp
next
  case (2 t ts content)
  then show ?case by simp
next
  case (3 t ts content)
  then show ?case
    by (auto simp: Let_def log_texts_append log_texts_log_handler split: prod.splits option.splits)
next
  case (4 t ts cursor content)
  then show ?case
    by (auto simp: Let_def log_texts_append log_texts_log_handler log_texts_forward_log
        simp del: log_report.simps split: prod.splits option.splits)
qed

section \<open>The traces of the reader\<close>

lemma read_loop_only_outputs: "x \<in> set (fst (read_loop obs)) \<Longrightarrow> \<exists>l. x = OutputSignal l"
  by (auto simp: read_loop_eq)

lemma drain_remaining_only_outputs: "x \<in> set (drain_remaining rest) \<Longrightarrow> \<exists>l. x = OutputSignal l"
  by (auto simp: drain_remaining_eq)

lemma run_filtered_output:
  assumes f: "is_filtered_output line" and m: "OutputSignal line \<in> set (fst (run env))"
  shows "\<exists>e. snd (run env) = Handled e \<and> line = ''Error: '' @ str_exn e"
proof (cases "env_popen env")
  case (Some e)
  with m show ?thesis by (auto simp: run_def run_handler_def)
next
  case None
  obtain out r where rl: "read_loop (env_reads env) = (out, r)"
    by (cases "read_loop (env_reads env)")
  then have out: "OutputSignal line \<notin> set out"
    using f read_loop_unfiltered[of line "env_reads env"] by auto
  show ?thesis
  proof (cases r)
    case (Left known)
    show ?thesis
    proof (cases "case known of Some rc \<Rightarrow> Some rc | None \<Rightarrow> env_poll_after env")
      case n: None
      with None rl Left m out show ?thesis by (auto simp: run_def after_loop_def)
    next
      case s: (Some rc)
      show ?thesis
      proof (cases "env_read_rest env")
        case (Inl e)
        with None rl Left m out s show ?thesis
          by (auto simp: run_def after_loop_def run_handler_def)
      next
        case (Inr rest)
        with None rl Left m out s f drain_remaining_unfiltered[of line rest] show ?thesis
          by (auto simp: run_def after_loop_def)
      qed
    qed
  next
    case (Raised e)
    with None rl m out show ?thesis by (auto simp: run_def run_handler_def)
  next
    case Pending
    with None rl m out show ?thesis by (auto simp: run_def)
  qed
qed

lemma LogMonitor_run_filtered:
  assumes f: "is_filtered_log line"
    and m: "LogSignal line \<in> set (fst (LogMonitor_run ts st content))"
  shows "\<exists>e. Inl e \<in> set (log_reads ts st content) \<and> line = ''Log monitor error: '' @ str_exn e"
proof -
  from m have "line \<in> set (concat (map log_report (log_reads ts st content)))"
    by (simp add: LogSignal_in_iff LogMonitor_run_texts)
  then obtain r where r: "r \<in> set (log_reads ts st content)" "line \<in> set (log_report r)"
    by auto
  show ?thesis
  proof (cases r)
    case (Inl e)
    with r show ?thesis by auto
  next
    case (Inr raw)
    with r have "line = rstrip raw" "\<not> is_filtered_log raw" by (auto split: if_splits)
    with f show ?thesis by (simp add: is_filtered_log_rstrip)
  qed
qed

lemma run_no_log_signal: "LogSignal msg \<notin> set (fst (run env))"
proof -
  have h: "LogSignal msg \<notin> set (run_handler e)" for e by (simp add: run_handler_def)
  have l: "LogSignal msg \<notin> set (fst (read_loop obs))" for obs
    using read_loop_only_outputs by blast
  have d: "LogSignal msg \<notin> set (drain_remaining rest)" for rest
    using drain_remaining_only_outputs by blast
  have a: "LogSignal msg \<notin> set (fst (after_loop env known))" for known
    using h d by (auto simp: after_loop_def split: option.splits sum.splits)
  obtain out r where rl: "read_loop (env_reads env) = (out, r)"
    by (cases "read_loop (env_reads env)")
  with l[of "env_reads env"] have o: "LogSignal msg \<notin> set out" by simp
  show ?thesis
  proof (cases "env_popen env")
    case (Some e)
    then show ?thesis using h by (simp add: run_def)
  next
    case None
    show ?thesis
    proof (cases r)
      case (Left known)
      obtain fin q where al: "after_loop env known = (fin, q)" by (cases "after_loop env known")
      with a[of known] have "LogSignal msg \<notin> set fin" by simp
      with None rl Left al o show ?thesis by (simp add: run_def)
    next
      case (Raised e)
      with None rl o h show ?thesis by (simp add: run_def)
    next
      case Pending
      with None rl o show ?thesis by (simp add: run_def)
    qed
  qed
qed

lemma LogMonitor_run_no_output_signal:
  "OutputSignal msg \<notin> set (fst (LogMonitor_run ts st content))"
proof (induction ts st content rule: LogMonitor_run.induct)
  case (1 st content)
  then show ?case by simp
next
  case (2 t ts content)
  then show ?case by simp
next
  case (3 t ts content)
  then show ?case
    by (auto simp: log_handler_def split: prod.splits option.splits) blast+
next
  case (4 t ts cursor content)
  then show ?case
    by (auto simp: log_handler_def forward_log_def Let_def
        split: prod.splits option.splits if_splits)
qed

section \<open>The drain and the end of \<^verbatim>\<open>run\<close>\<close>

lemma split_nl_nonempty: "split_nl s \<noteq> []"
  by (induction s) (auto split: list.splits)

lemma split_nl_no_newline: "newline \<notin> set s \<Longrightarrow> split_nl s = [s]"
  by (induction s) auto

lemma split_nl_append: "split_nl (xs @ newline # ys) = split_nl xs @ split_nl ys"
proof (induction xs)
  case Nil
  then show ?case by simp
next
  case (Cons x xs)
  then show ?case using split_nl_nonempty[of xs] by (cases "split_nl xs") auto
qed

lemma rstrip_set: "set (rstrip s) \<subseteq> set s"
  using rstrip_prefix[of s] by (auto simp: prefix_def) (metis Un_iff set_append)

lemma split_nl_partial:
  assumes "newline \<notin> set partial" "rstrip partial \<noteq> []"
  shows "split_nl (rstrip (body @ newline # partial)) = split_nl body @ [rstrip partial]"
proof -
  have "rstrip ((body @ [newline]) @ partial) = (body @ [newline]) @ rstrip partial"
    using assms(2) by (rule rstrip_append_nonempty)
  moreover have "newline \<notin> set (rstrip partial)" using assms(1) rstrip_set by blast
  ultimately show ?thesis by (simp add: split_nl_append split_nl_no_newline)
qed

lemma run_exit_seen:
  assumes "env_popen env = None" "read_loop (env_reads env) = (out, Left known)"
    "known = Some rc \<or> known = None \<and> env_poll_after env = Some rc"
    "env_read_rest env = Inr rest"
  shows "run env = (StatusSignal ''Tunnel enabled.'' # out @ drain_remaining rest
                      @ [FinishedSignal rc], Completed)"
  using assms by (auto simp: run_def after_loop_def)

lemma run_exit_seen_raises:
  assumes "env_popen env = None" "read_loop (env_reads env) = (out, Left known)"
    "known = Some rc \<or> known = None \<and> env_poll_after env = Some rc"
    "env_read_rest env = Inl e"
  shows "run env = (StatusSignal ''Tunnel enabled.'' # out @ run_handler e, Handled e)"
  using assms by (auto simp: run_def after_loop_def)

text \<open>
  When the loop is left because \<^verbatim>\<open>running\<close> was cleared and \<^verbatim>\<open>poll()\<close> still returns
  \<^verbatim>\<open>None\<close>, \<^verbatim>\<open>run\<close> returns at once: nothing is drained and no \<^verbatim>\<open>finished_signal\<close> is
  emitted.
\<close>

lemma run_left_by_flag_child_alive:
  assumes "env_popen env = None" "read_loop (env_reads env) = (out, Left None)"
    "env_poll_after env = None"
  shows "run env = (StatusSignal ''Tunnel enabled.'' # out, Completed)"
  using assms by (auto simp: run_def after_loop_def)

section \<open>The traces of \<^verbatim>\<open>stop\<close>\<close>

lemma stop_handler_quiet: "signals_sent (stop_handler e) = []" "coordinator st (stop_handler e)"
  by (cases e; simp)+

lemma stop_kill_order:
  "coordinator SignalingKill (fst (stop_kill env))"
  "signals_sent (fst (stop_kill env)) = [] \<or> signals_sent (fst (stop_kill env)) = [SIGKILL]"
  by (auto simp: stop_kill_def stop_handler_quiet split: option.splits sum.splits)

lemma stop_term_order:
  "coordinator SignalingTerm (fst (stop_term env))"
  "signals_sent (fst (stop_term env)) = [] \<or>
   signals_sent (fst (stop_term env)) = [SIGTERM] \<or>
   timed_out (se_wait_3 env) \<and> signals_sent (fst (stop_term env)) = [SIGTERM, SIGKILL]"
  using stop_kill_order[of env]
  by (auto simp: stop_term_def stop_handler_quiet timed_out_def
      split: option.splits sum.splits exn.splits prod.splits)

lemma stop_int_order:
  "coordinator Idle (fst (stop_int env))"
  "signals_sent (fst (stop_int env)) = [] \<or>
   signals_sent (fst (stop_int env)) = [SIGINT] \<or>
   timed_out (se_wait_10 env) \<and> signals_sent (fst (stop_int env)) = [SIGINT, SIGTERM] \<or>
   timed_out (se_wait_10 env) \<and> timed_out (se_wait_3 env) \<and>
     signals_sent (fst (stop_int env)) = [SIGINT, SIGTERM, SIGKILL]"
  using stop_term_order[of env]
  by (auto simp: stop_int_def stop_handler_quiet timed_out_def
      split: option.splits sum.splits exn.splits prod.splits)

lemma stop_trace:
  "snd (stop env self) = [] \<or> snd (stop env self) = fst (stop_int env)"
  by (auto simp: stop_def poll_def Let_def split: option.splits prod.splits)

lemma stop_exited:
  "process self = Some p \<Longrightarrow> returncode p = Some rc \<or> se_poll env = Some rc \<Longrightarrow>
   snd (stop env self) = []"
  by (auto simp: stop_def poll_def Let_def split: option.splits prod.splits)

lemma stop_alive:
  "process self = Some p \<Longrightarrow> returncode p = None \<Longrightarrow> se_poll env = None \<Longrightarrow>
   snd (stop env self) = fst (stop_int env)"
  by (auto simp: stop_def poll_def Let_def split: option.splits prod.splits)

section \<open>The exit code after \<^verbatim>\<open>stop\<close>\<close>

lemma stop_handler_not_success: "\<not> stop_succeeded (xs @ stop_handler e)"
  by (cases e) (simp_all add: stop_succeeded_def)

lemma stop_kill_code:
  "stop_succeeded (xs @ fst (stop_kill env)) \<Longrightarrow> \<exists>rc. snd (stop_kill env) = Some rc"
  using stop_handler_not_success[of "xs @ [OutputSignal ''[SYSTEM] Force killing process...'']"]
    stop_handler_not_success[of "xs @ [OutputSignal ''[SYSTEM] Force killing process...'',
        Killpg SIGKILL, Wait None (Inl e)]" e for e]
  by (auto simp: stop_kill_def split: option.splits sum.splits)

lemma stop_term_code:
  assumes "stop_succeeded (xs @ fst (stop_term env))"
  shows "\<exists>rc. snd (stop_term env) = Some rc"
proof (cases "se_killpg_term env")
  case (Some e)
  with assms show ?thesis
    using stop_handler_not_success[of
        "xs @ [OutputSignal ''[SYSTEM] Clean shutdown timeout, forcing termination...'']" e]
    by (simp add: stop_term_def)
next
  case None
  show ?thesis
  proof (cases "se_wait_3 env")
    case (Inr rc)
    with None show ?thesis by (simp add: stop_term_def)
  next
    case (Inl e)
    show ?thesis
    proof (cases "timed_out (se_wait_3 env)")
      case True
      then obtain m where m: "se_wait_3 env = Inl (TimeoutExpired m)"
        by (auto simp: timed_out_def split: sum.splits exn.splits)
      obtain out rc where k: "stop_kill env = (out, rc)" by (cases "stop_kill env")
      with assms None m have "stop_succeeded
          ((xs @ [OutputSignal ''[SYSTEM] Clean shutdown timeout, forcing termination...'',
                 Killpg SIGTERM, Wait (Some 3) (Inl (TimeoutExpired m))]) @ fst (stop_kill env))"
        by (simp add: stop_term_def)
      then have "\<exists>rc. snd (stop_kill env) = Some rc" by (rule stop_kill_code)
      with None m k show ?thesis by (simp add: stop_term_def)
    next
      case False
      with Inl None assms show ?thesis
        using stop_handler_not_success[of
            "xs @ [OutputSignal ''[SYSTEM] Clean shutdown timeout, forcing termination...'',
                   Killpg SIGTERM, Wait (Some 3) (Inl e)]" e]
        by (cases e) (simp_all add: stop_term_def timed_out_def)
    qed
  qed
qed

lemma stop_int_code:
  assumes "stop_succeeded (fst (stop_int env))"
  shows "\<exists>rc. snd (stop_int env) = Some rc"
proof (cases "se_killpg_int env")
  case (Some e)
  with assms show ?thesis
    using stop_handler_not_success[of
        "[OutputSignal ''[SYSTEM] Sending SIGINT (Ctrl+C) to tunnel process...'']" e]
    by (simp add: stop_int_def)
next
  case None
  show ?thesis
  proof (cases "se_wait_10 env")
    case (Inr rc)
    with None show ?thesis by (simp add: stop_int_def)
  next
    case (Inl e)
    show ?thesis
    proof (cases "timed_out (se_wait_10 env)")
      case True
      then obtain m where m: "se_wait_10 env = Inl (TimeoutExpired m)"
        by (auto simp: timed_out_def split: sum.splits exn.splits)
      obtain out rc where k: "stop_term env = (out, rc)" by (cases "stop_term env")
      with assms None m have "stop_succeeded
          ([OutputSignal ''[SYSTEM] Sending SIGINT (Ctrl+C) to tunnel process...'',
            Killpg SIGINT, OutputSignal ''[SYSTEM] Waiting for clean shutdown...'',
            Wait (Some 10) (Inl (TimeoutExpired m))] @ fst (stop_term env))"
        by (simp add: stop_int_def)
      then have "\<exists>rc. snd (stop_term env) = Some rc" by (rule stop_term_code)
      with None m k show ?thesis by (simp add: stop_int_def)
    next
      case False
      with Inl None assms show ?thesis
        using stop_handler_not_success[of
            "[OutputSignal ''[SYSTEM] Sending SIGINT (Ctrl+C) to tunnel process...'',
              Killpg SIGINT, OutputSignal ''[SYSTEM] Waiting for clean shutdown...'',
              Wait (Some 10) (Inl e)]" e]
        by (cases e) (simp_all add: stop_int_def timed_out_def)
    qed
  qed
qed

lemma stop_succeeded_code:
  assumes "stop env self = (self', out)" and "stop_succeeded out"
  shows "\<exists>p rc. process self' = Some p \<and> returncode p = Some rc"
proof -
  from assms(2) have ne: "out \<noteq> []" by (simp add: stop_succeeded_def)
  from stop_trace[of env self] assms(1) ne have o: "out = fst (stop_int env)" by auto
  with assms(2) obtain rc where rc: "snd (stop_int env) = Some rc"
    using stop_int_code by blast
  obtain so sc where si: "stop_int env = (so, sc)" by (cases "stop_int env")
  with rc have "sc = Some rc" by simp
  with assms(1) ne si show ?thesis
    by (auto simp: stop_def poll_def Let_def split: option.splits prod.splits)
qed

lemma stop_when_exited:
  assumes "process self = Some p" and "returncode p = Some rc"
  shows "stop env self = (self\<lparr>running := False\<rparr>, [])"
  using assms by (simp add: stop_def poll_def Let_def)

section \<open>Stopping from the window\<close>

lemma append_output_runner: "script_runner (append_output s g) = script_runner g"
  by (simp add: append_output_def)

lemma append_output_stopping: "stopping (append_output s g) = stopping g"
  by (simp add: append_output_def)

lemma deliver_runner: "script_runner (deliver es g) = script_runner g"
  by (induction es g rule: deliver.induct) (simp_all add: append_output_runner)

lemma stop_log_runner: "script_runner (stop_log env g) = script_runner g"
  by (simp add: stop_log_def Let_def append_output_runner split: option.splits)

lemma stop_runner_trace:
  "snd (stop_runner env g) = [] \<or>
   (\<exists>r. script_runner g = Some r \<and> snd (stop_runner env g) = snd (stop (sn_stop env) r) \<and>
        script_runner (fst (stop_runner env g)) = Some (fst (stop (sn_stop env) r)))"
  by (auto simp: stop_runner_def Let_def append_output_runner deliver_runner
      split: option.splits prod.splits)

lemma stop_tunnel_trace:
  assumes "\<not> stopping g"
  shows "snd (stop_tunnel env g) = [] \<or>
   (\<exists>r. script_runner g = Some r \<and> snd (stop_tunnel env g) = snd (stop (sn_stop env) r) \<and>
        script_runner (fst (stop_tunnel env g)) = Some (fst (stop (sn_stop env) r)))"
proof -
  let ?g = "g\<lparr>stopping := True, stop_btn_enabled := False, status_bar := ''Stopping tunnel...''\<rparr>"
  obtain g1 out where sr: "stop_runner env ?g = (g1, out)" by (cases "stop_runner env ?g")
  have t: "stop_tunnel env g =
      (append_output ''[SYSTEM] Tunnel stop sequence completed''
         ((stop_log env g1)\<lparr>start_btn_enabled := True, stop_btn_enabled := False,
            stopping := False, status_bar := ''Tunnel stopped.''\<rparr>), out)"
    using assms sr by (simp add: stop_tunnel_def Let_def)
  have r: "script_runner (fst (stop_tunnel env g)) = script_runner g1"
    unfolding t by (simp add: append_output_runner stop_log_runner)
  from stop_runner_trace[of env ?g] sr t r show ?thesis by auto
qed

lemma stop_tunnel_not_stopping: "\<not> stopping g \<Longrightarrow> \<not> stopping (fst (stop_tunnel env g))"
  by (simp add: stop_tunnel_def Let_def append_output_stopping split: prod.splits)

lemma stop_tunnel_after_exit:
  assumes "\<not> stopping g" and "script_runner g = Some r" and "process r = Some p"
    and "returncode p = Some rc"
  shows "snd (stop_tunnel env g) = []"
  using stop_tunnel_trace[OF assms(1), of env] assms(2-4) stop_when_exited[of r p rc "sn_stop env"]
  by auto

lemma stop_clears_running: "running (fst (stop env self)) = False"
  by (auto simp: stop_def poll_def Let_def split: option.splits prod.splits)

lemma stop_twice:
  assumes "stop env self = (self', out)" and "stop_succeeded out"
  shows "stop env' self' = (self', [])"
proof -
  from stop_succeeded_code[OF assms] obtain p rc
    where p: "process self' = Some p" "returncode p = Some rc" by blast
  have "running self' = False" using stop_clears_running[of env self] assms(1) by simp
  then have "self'\<lparr>running := False\<rparr> = self'" by simp
  with stop_when_exited[OF p, of env'] show ?thesis by simp
qed

lemma stop_tunnel_twice:
  assumes "\<not> stopping g" and "stop_tunnel tenv g = (g', out)" and "stop_succeeded out"
  shows "snd (stop_tunnel tenv' g') = []"
proof -
  from assms(3) have ne: "out \<noteq> []" by (simp add: stop_succeeded_def)
  with stop_tunnel_trace[OF assms(1), of tenv] assms(2) obtain r
    where r: "script_runner g = Some r" "out = snd (stop (sn_stop tenv) r)"
      "script_runner g' = Some (fst (stop (sn_stop tenv) r))"
    by auto
  obtain r' where s: "stop (sn_stop tenv) r = (r', out)"
    using r(2) by (cases "stop (sn_stop tenv) r") simp
  from stop_succeeded_code[OF s assms(3)] obtain p rc
    where p: "process r' = Some p" "returncode p = Some rc" by blast
  have n: "\<not> stopping g'" using stop_tunnel_not_stopping[OF assms(1), of tenv] assms(2) by simp
  from r(3) s have "script_runner g' = Some r'" by simp
  from stop_tunnel_after_exit[OF n this p] show ?thesis .
qed

text \<open>
  After a \<^verbatim>\<open>stop\<close> that ended in an exception other than a lookup failure the process
  may still be alive, and a second \<^verbatim>\<open>stop\<close> then signals again.
\<close>

lemma stop_after_failed_stop_signals_again:
  "signals_sent (snd (stop term_refused alive)) = [SIGINT] \<and>
   signals_sent (snd (stop obedient_child (fst (stop term_refused alive)))) = [SIGINT]"
  by code_simp

section \<open>The tailer and the content before the attach\<close>

lemma readline_at_shift: "readline_at (length pre + c) (pre @ content) = readline_at c content"
  by (simp add: readline_at_def)

lemma consumed_at_shift: "consumed_at (length pre + c) (pre @ content) = consumed_at c content"
  by (simp add: consumed_at_def)

lemma LogMonitor_run_shift:
  "LogMonitor_run ts (shift (length pre) st) (pre @ content) =
     (fst (LogMonitor_run ts st content), shift (length pre) (snd (LogMonitor_run ts st content)))"
proof (induction ts st content rule: LogMonitor_run.induct)
  case (1 st content)
  then show ?case by simp
next
  case (2 t ts content)
  then show ?case by simp
next
  case (3 t ts content)
  then show ?case by (auto split: option.splits prod.splits)
next
  case (4 t ts cursor content)
  then show ?case
    by (auto simp: readline_at_shift consumed_at_shift add.assoc split: option.splits prod.splits)
qed

lemma LogMonitor_run_from_end:
  "fst (LogMonitor_run ts (Attached (length content)) content) =
   fst (LogMonitor_run ts (Attached 0) [])"
  using LogMonitor_run_shift[of ts content "Attached 0" "[]"] by simp

lemma LogMonitor_run_waiting:
  assumes "\<forall>t \<in> set before. tk_running t \<and> \<not> tk_exists t"
  shows "LogMonitor_run (before @ ts) Detached content =
     (replicate (length before) (Sleep 1000)
        @ fst (LogMonitor_run ts Detached (content @ concat (map tk_written before))),
      snd (LogMonitor_run ts Detached (content @ concat (map tk_written before))))"
  using assms
proof (induction before arbitrary: content)
  case Nil
  then show ?case by simp
next
  case (Cons b before)
  then show ?case by (simp add: case_prod_beta)
qed

lemma discovery_retries:
  assumes "workspace g \<noteq> []" and "log_timer g = Some ms"
  shows "discovery (replicate k [] @ (f # fs) # later) g =
     (start_log_monitoring (f # fs) (g\<lparr>log_timer := None\<rparr>), ms # replicate k 2000)"
  using assms
proof (induction k arbitrary: g ms)
  case 0
  then show ?case
    by (cases later) (simp_all add: start_log_monitoring_def Let_def append_output_def)
next
  case (Suc k)
  have "workspace (g\<lparr>log_timer := Some 2000\<rparr>) \<noteq> []" "log_timer (g\<lparr>log_timer := Some 2000\<rparr>) = Some 2000"
    using Suc.prems by simp_all
  from Suc.IH[OF this] Suc.prems show ?case
    by (simp add: start_log_monitoring_def)
qed

section \<open>Verified properties\<close>

subsection \<open>One suppression policy for both sources\<close>

text \<open>
  C9. The predicate of the process-output reader and the predicate of the log tailer give
  the same answer on every line: the two rule lists of the source are the same list.
\<close>

theorem one_suppression_policy: "is_filtered_output line = is_filtered_log line"
  by (simp add: is_filtered_output_def is_filtered_log_def output_filter_patterns_def
      log_filter_patterns_def)

subsection \<open>The bare pattern\<close>

text \<open>
  C10. A line that contains \<^verbatim>\<open>io timeout\<close> in any letter case is noise for both filters
  whatever else it holds, and neither the read loop, nor the drain of the remaining
  output, nor the log tailer forwards it.  The third rule subsumes the first two, and it
  matches exactly the lines that contain the text.
\<close>

theorem io_timeout_always_suppressed:
  "(sublist ''io timeout'' (lower line) \<longrightarrow>
      is_filtered_output line \<and> is_filtered_log line \<and>
      forward_output line = [] \<and> forward_log line = [] \<and>
      OutputSignal line \<notin> set (fst (read_loop obs)) \<and>
      OutputSignal line \<notin> set (drain_remaining rest)) \<and>
   (re_search (output_filter_patterns ! 0) line \<or> re_search (output_filter_patterns ! 1) line
      \<longrightarrow> re_search (output_filter_patterns ! 2) line) \<and>
   (re_search (log_filter_patterns ! 0) line \<or> re_search (log_filter_patterns ! 1) line
      \<longrightarrow> re_search (log_filter_patterns ! 2) line) \<and>
   (re_search (output_filter_patterns ! 2) line \<longleftrightarrow> sublist ''io timeout'' (lower line))"
proof -
  have low: "lower ''io timeout'' = ''io timeout''"
    by (simp add: lower_def lower_char_def)
  have sub: "re_search (p @ lits ''io timeout'') line \<Longrightarrow> re_search (lits ''io timeout'') line" for p
    by (rule re_search_append)
  have 1: "re_search (lits ''[I]'' @ [Star Dot] @ lits ''io timeout'') line
           \<Longrightarrow> re_search (lits ''io timeout'') line"
    using sub[of "lits ''[I]'' @ [Star Dot]"] by simp
  have 2: "re_search (lits ''[I]'' @ [Star Dot] @ lits ''0x'' @ [Plus hex_digit] @ [Star Dot]
              @ lits ''io timeout'') line
           \<Longrightarrow> re_search (lits ''io timeout'') line"
    using sub[of "lits ''[I]'' @ [Star Dot] @ lits ''0x'' @ [Plus hex_digit] @ [Star Dot]"] by simp
  have a: "is_filtered_output line" if "sublist ''io timeout'' (lower line)"
    using that by (rule io_timeout_filtered)
  have b: "is_filtered_log line" if "sublist ''io timeout'' (lower line)"
    using that by (simp add: filters_agree io_timeout_filtered)
  show ?thesis
    using 1 2 a b forward_output_filtered[of line] forward_log_filtered[of line]
      drain_remaining_unfiltered[of line rest] read_loop_unfiltered[of line obs]
    by (auto simp: output_filter_patterns_def log_filter_patterns_def re_search_lits low)
qed

theorem io_timeout_always_suppressed_witness:
  "sublist ''io timeout'' (lower ''ERROR: upstream IO Timeout, reconnecting'') \<and>
   is_filtered_output ''ERROR: upstream IO Timeout, reconnecting'' \<and>
   is_filtered_log ''ERROR: upstream IO Timeout, reconnecting'' \<and>
   forward_output ''ERROR: upstream IO Timeout, reconnecting'' = [] \<and>
   forward_log ''ERROR: upstream IO Timeout, reconnecting'' = []"
proof -
  have h: "sublist ''io timeout'' (lower ''ERROR: upstream IO Timeout, reconnecting'')"
    by code_simp
  with io_timeout_always_suppressed[of "''ERROR: upstream IO Timeout, reconnecting''"]
  show ?thesis by blast
qed

subsection \<open>Suppressed lines are never forwarded\<close>

text \<open>
  C1. A line that matches a suppression rule is emitted by neither reader.  For the
  process-output reader: the loop forwards nothing for it, no text that the filter marks
  is among the emissions of the loop or of the drain of the remaining output, and if such
  a text is emitted by \<^verbatim>\<open>run\<close> at all it is the report of an exception that
  \<^verbatim>\<open>run\<close> caught, not a line read.  For the log tailer: the same, the only
  other emission being the report of an exception.  Whether a line matches does not depend
  on its trailing whitespace, so the test on the stripped line decides for the line as
  read.  The line \<^verbatim>\<open>[I] 0x1a2b io timeout\<close> is suppressed by both filters.
\<close>

theorem suppressed_line_never_emitted:
  "(is_filtered_output line \<longrightarrow>
      forward_output line = [] \<and>
      OutputSignal line \<notin> set (fst (read_loop obs)) \<and>
      OutputSignal line \<notin> set (drain_remaining rest) \<and>
      (OutputSignal line \<in> set (fst (run env)) \<longrightarrow>
         (\<exists>e. snd (run env) = Handled e \<and> line = ''Error: '' @ str_exn e))) \<and>
   (is_filtered_log line \<longrightarrow>
      forward_log line = [] \<and>
      (LogSignal line \<in> set (fst (LogMonitor_run ts st content)) \<longrightarrow>
         (\<exists>e. Inl e \<in> set (log_reads ts st content) \<and>
              line = ''Log monitor error: '' @ str_exn e))) \<and>
   is_filtered_output (rstrip line) = is_filtered_output line \<and>
   is_filtered_log (rstrip line) = is_filtered_log line \<and>
   is_filtered_output ''[I] 0x1a2b io timeout'' \<and>
   is_filtered_log ''[I] 0x1a2b io timeout''"
proof -
  have "is_filtered_output ''[I] 0x1a2b io timeout''" by code_simp
  moreover have "is_filtered_log ''[I] 0x1a2b io timeout''" by code_simp
  ultimately show ?thesis
    using forward_output_filtered[of line] forward_log_filtered[of line]
      read_loop_unfiltered[of line obs] drain_remaining_unfiltered[of line rest]
      run_filtered_output[of line env] LogMonitor_run_filtered[of line ts st content]
      is_filtered_output_rstrip[of line] is_filtered_log_rstrip[of line]
    by blast
qed

theorem suppressed_line_never_emitted_witness:
  "is_filtered_output ''[I] 0x1a2b io timeout'' \<and>
   is_filtered_log ''[I] 0x1a2b io timeout'' \<and>
   OutputSignal ''[I] 0x1a2b io timeout'' \<notin> set (fst (run scenario_C)) \<and>
   LogSignal ''[I] 0x1a2b io timeout'' \<notin>
     set (fst (LogMonitor_run
                 [appended [], appended (''[I] 0x1a2b io timeout'' @ [newline]), appended []]
                 Detached []))"
proof -
  have r: "snd (run scenario_C) = Completed" by code_simp
  have l: "log_reads [appended [], appended (''[I] 0x1a2b io timeout'' @ [newline]), appended []]
             Detached [] = [Inr (''[I] 0x1a2b io timeout'' @ [newline])]"
    by code_simp
  show ?thesis
    using suppressed_line_never_emitted[of "''[I] 0x1a2b io timeout''" "[]" "[]" scenario_C
        "[appended [], appended (''[I] 0x1a2b io timeout'' @ [newline]), appended []]"
        Detached "[]"] r l
    by auto
qed

subsection \<open>Lines that match no rule are forwarded once\<close>

text \<open>
  C4, as the code has it.  The emissions of the read loop are the lines read that match
  no rule, each once, in order, each without its trailing whitespace.  The emissions of
  the drain are the non-empty lines of the remaining output that match no rule, each
  once, in order, each as it stands after the end of the whole remaining output was
  stripped: a drained line keeps its own trailing whitespace, and an empty drained line is
  not emitted.  The texts emitted by the log tailer are, read by read, the line without its
  trailing whitespace unless it matches a rule, or the report of the exception.  The
  process-output reader uses \<^verbatim>\<open>output_signal\<close> only and the log tailer \<^verbatim>\<open>log_signal\<close>
  only.  In scenario C the line \<^verbatim>\<open>connected to peer 10.0.0.1\<close> is forwarded unchanged.
\<close>

theorem unsuppressed_line_forwarded_once:
  "fst (read_loop obs) =
     map (OutputSignal \<circ> rstrip) (filter (\<lambda>l. \<not> is_filtered_output l) (loop_lines obs)) \<and>
   drain_remaining rest =
     map OutputSignal
       (filter (\<lambda>l. l \<noteq> [] \<and> \<not> is_filtered_output l) (split_nl (rstrip rest))) \<and>
   log_texts (fst (LogMonitor_run ts st content)) =
     concat (map log_report (log_reads ts st content)) \<and>
   LogSignal msg \<notin> set (fst (run env)) \<and>
   OutputSignal msg \<notin> set (fst (LogMonitor_run ts st content)) \<and>
   run scenario_C =
     ([StatusSignal ''Tunnel enabled.'', OutputSignal ''connected to peer 10.0.0.1'',
       FinishedSignal 0], Completed) \<and>
   drain_remaining (''done  '' @ [newline] @ ''   '' @ [newline] @ ''bye '' @ [newline]) =
     [OutputSignal ''done  '', OutputSignal ''   '', OutputSignal ''bye''] \<and>
   fst (read_loop [reading (''done  '' @ [newline]), reading (''   '' @ [newline]), exited 0]) =
     [OutputSignal ''done'', OutputSignal []] \<and>
   LogMonitor_run
     [appended (''keep'' @ [carriage_return] @ ''io timeout'' @ [carriage_return, newline]
                @ ''connected  '' @ [newline]),
      appended [], appended []] (Attached 0) [] =
     ([LogSignal ''keep'', LogSignal ''connected''], Attached 29)"
proof -
  have 1: "run scenario_C =
     ([StatusSignal ''Tunnel enabled.'', OutputSignal ''connected to peer 10.0.0.1'',
       FinishedSignal 0], Completed)"
    by code_simp
  have 2: "drain_remaining (''done  '' @ [newline] @ ''   '' @ [newline] @ ''bye '' @ [newline]) =
     [OutputSignal ''done  '', OutputSignal ''   '', OutputSignal ''bye'']"
    by code_simp
  have 3: "fst (read_loop [reading (''done  '' @ [newline]), reading (''   '' @ [newline]), exited 0]) =
     [OutputSignal ''done'', OutputSignal []]"
    by code_simp
  have 4: "LogMonitor_run
     [appended (''keep'' @ [carriage_return] @ ''io timeout'' @ [carriage_return, newline]
                @ ''connected  '' @ [newline]),
      appended [], appended []] (Attached 0) [] =
     ([LogSignal ''keep'', LogSignal ''connected''], Attached 29)"
    by code_simp
  from 1 2 3 4 show ?thesis
    using read_loop_eq[of obs] drain_remaining_eq[of rest] LogMonitor_run_texts[of ts st content]
      run_no_log_signal[of msg env] LogMonitor_run_no_output_signal[of msg ts st content]
    by blast
qed

text \<open>
  C4 as stated fails on an empty line of the remaining output: the child's last output
  \<^verbatim>\<open>done\n\nbye\n\<close> has three lines, the empty one matches no rule, and it is not
  forwarded (the empty line read in the loop is).
\<close>

theorem blank_line_of_rest_dropped:
  "env_read_rest blank_in_rest = Inr (''done'' @ [newline, newline] @ ''bye'' @ [newline]) \<and>
   split_nl (rstrip (''done'' @ [newline, newline] @ ''bye'' @ [newline])) = [''done'', [], ''bye''] \<and>
   \<not> is_filtered_output [] \<and>
   run blank_in_rest =
     ([StatusSignal ''Tunnel enabled.'', OutputSignal ''starting'', OutputSignal [],
       OutputSignal ''done'', OutputSignal ''bye'', FinishedSignal 0], Completed)"
  by code_simp

subsection \<open>Termination is reported after the remaining output\<close>

text \<open>
  C2, as the code has it.  Take an execution in which the child was started, the read
  loop ended without \<^verbatim>\<open>readline\<close> raising, and the child is then seen to have exited:
  the loop ended on the exit code, or it ended because \<^verbatim>\<open>stop\<close> cleared \<^verbatim>\<open>running\<close>
  and the \<^verbatim>\<open>poll()\<close> after the loop gave the exit code.  If \<^verbatim>\<open>read()\<close> returns the
  remaining output, that output is stripped at its end and split at newlines, each
  non-empty line that matches no rule is emitted in order, and \<^verbatim>\<open>finished_signal\<close>
  with the exit code is the last emission, after all of them; an unterminated trailing
  partial line that matches no rule is the emission just before it.  If \<^verbatim>\<open>read()\<close>
  raises, the emissions after the loop are the error report, the status
  \<^verbatim>\<open>Error occurred\<close> and \<^verbatim>\<open>finished_signal\<close> with the code 1.  The loop itself emits
  no \<^verbatim>\<open>finished_signal\<close>.
\<close>

theorem termination_after_drain:
  assumes "env_popen env = None"
    and "read_loop (env_reads env) = (out, Left known)"
    and "known = Some rc \<or> known = None \<and> env_poll_after env = Some rc"
  shows "(env_read_rest env = Inr rest \<longrightarrow>
            run env =
              (StatusSignal ''Tunnel enabled.'' # out
                 @ map OutputSignal
                     (filter (\<lambda>l. l \<noteq> [] \<and> \<not> is_filtered_output l) (split_nl (rstrip rest)))
                 @ [FinishedSignal rc], Completed) \<and>
            (rest = body @ newline # partial \<and> newline \<notin> set partial \<and>
             rstrip partial \<noteq> [] \<and> \<not> is_filtered_output (rstrip partial) \<longrightarrow>
               (\<exists>before. fst (run env) =
                   before @ [OutputSignal (rstrip partial), FinishedSignal rc]))) \<and>
         (env_read_rest env = Inl e \<longrightarrow>
            run env =
              (StatusSignal ''Tunnel enabled.'' # out
                 @ [OutputSignal (''Error: '' @ str_exn e), StatusSignal ''Error occurred'',
                    FinishedSignal 1], Handled e)) \<and>
         FinishedSignal c \<notin> set out"
proof -
  let ?keep = "\<lambda>l. l \<noteq> [] \<and> \<not> is_filtered_output l"
  have r: "run env = (StatusSignal ''Tunnel enabled.'' # out
              @ map OutputSignal (filter ?keep (split_nl (rstrip rest)))
              @ [FinishedSignal rc], Completed)"
    if "env_read_rest env = Inr rest"
    using run_exit_seen[OF assms that] by (simp add: drain_remaining_eq)
  have x: "run env =
              (StatusSignal ''Tunnel enabled.'' # out
                 @ [OutputSignal (''Error: '' @ str_exn e), StatusSignal ''Error occurred'',
                    FinishedSignal 1], Handled e)"
    if "env_read_rest env = Inl e"
    using run_exit_seen_raises[OF assms that] by (simp add: run_handler_def)
  have o: "FinishedSignal c \<notin> set out"
    using read_loop_only_outputs[of "FinishedSignal c" "env_reads env"] assms(2) by auto
  have p: "\<exists>before. fst (run env) = before @ [OutputSignal (rstrip partial), FinishedSignal rc]"
    if i: "env_read_rest env = Inr rest"
      and h: "rest = body @ newline # partial" "newline \<notin> set partial" "rstrip partial \<noteq> []"
      "\<not> is_filtered_output (rstrip partial)"
  proof -
    have "split_nl (rstrip rest) = split_nl body @ [rstrip partial]"
      unfolding h(1) using h(2,3) by (rule split_nl_partial)
    then have "filter ?keep (split_nl (rstrip rest)) = filter ?keep (split_nl body) @ [rstrip partial]"
      using h(3,4) by simp
    then have "fst (run env) =
        (StatusSignal ''Tunnel enabled.'' # out @ map OutputSignal (filter ?keep (split_nl body)))
          @ [OutputSignal (rstrip partial), FinishedSignal rc]"
      using r[OF i] by simp
    then show ?thesis by blast
  qed
  from r x o p show ?thesis by blast
qed

theorem termination_after_drain_witness:
  "env_popen stopped_then_drained = None \<and>
   read_loop (env_reads stopped_then_drained) = ([OutputSignal ''up''], Left None) \<and>
   env_poll_after stopped_then_drained = Some 130 \<and>
   env_read_rest stopped_then_drained = Inr (''closing'' @ [newline, newline] @ ''partial'') \<and>
   run stopped_then_drained =
     ([StatusSignal ''Tunnel enabled.'', OutputSignal ''up'', OutputSignal ''closing'',
       OutputSignal ''partial'', FinishedSignal 130], Completed) \<and>
   env_popen rest_unreadable = None \<and>
   read_loop (env_reads rest_unreadable) = ([OutputSignal ''up''], Left (Some 3)) \<and>
   env_read_rest rest_unreadable = Inl (OtherException ''invalid start byte'') \<and>
   run rest_unreadable =
     ([StatusSignal ''Tunnel enabled.'', OutputSignal ''up'',
       OutputSignal ''Error: invalid start byte'', StatusSignal ''Error occurred'',
       FinishedSignal 1], Handled (OtherException ''invalid start byte''))"
proof -
  have 1: "env_popen stopped_then_drained = None" by (simp add: stopped_then_drained_def)
  have 2: "read_loop (env_reads stopped_then_drained) = ([OutputSignal ''up''], Left None)"
    by code_simp
  have 3: "None = Some 130 \<or> None = None \<and> env_poll_after stopped_then_drained = Some 130"
    by (simp add: stopped_then_drained_def)
  have 4: "env_read_rest stopped_then_drained = Inr (''closing'' @ [newline, newline] @ ''partial'')"
    by (simp add: stopped_then_drained_def)
  have 5: "map OutputSignal (filter (\<lambda>l. l \<noteq> [] \<and> \<not> is_filtered_output l)
              (split_nl (rstrip (''closing'' @ [newline, newline] @ ''partial''))))
           = [OutputSignal ''closing'', OutputSignal ''partial'']"
    by code_simp
  have 6: "env_popen rest_unreadable = None" by (simp add: rest_unreadable_def)
  have 7: "read_loop (env_reads rest_unreadable) = ([OutputSignal ''up''], Left (Some 3))"
    by code_simp
  have 8: "Some 3 = Some 3 \<or> Some (3::int) = None \<and> env_poll_after rest_unreadable = Some 3"
    by simp
  have 9: "env_read_rest rest_unreadable = Inl (OtherException ''invalid start byte'')"
    by (simp add: rest_unreadable_def)
  from termination_after_drain[OF 1 2 3,
      of "''closing'' @ [newline, newline] @ ''partial''" "[]" "[]" "OtherException []" 0]
    termination_after_drain[OF 6 7 8, of "[]" "[]" "[]" "OtherException ''invalid start byte''" 0]
    1 2 3 4 5 6 7 9
  show ?thesis by simp
qed

text \<open>
  C2 as stated fails in three executions.  After \<^verbatim>\<open>stop\<close>, with the remaining output
  \<^verbatim>\<open>closing\n\npartial\<close>, the empty line matches no rule and is not emitted.  When
  \<^verbatim>\<open>stop\<close> clears \<^verbatim>\<open>running\<close> while the child runs, \<^verbatim>\<open>readline\<close> returns the end of
  the stream and the \<^verbatim>\<open>poll()\<close> after the loop still returns \<^verbatim>\<open>None\<close>, \<^verbatim>\<open>run\<close>
  returns without \<^verbatim>\<open>finished_signal\<close>.  When \<^verbatim>\<open>read()\<close> raises after a child exited
  with code 3, the code emitted is 1.
\<close>

theorem termination_report_fails:
  "env_read_rest stopped_then_drained = Inr (''closing'' @ [newline, newline] @ ''partial'') \<and>
   split_nl (rstrip (''closing'' @ [newline, newline] @ ''partial'')) = [''closing'', [], ''partial''] \<and>
   \<not> is_filtered_output [] \<and>
   run stopped_then_drained =
     ([StatusSignal ''Tunnel enabled.'', OutputSignal ''up'', OutputSignal ''closing'',
       OutputSignal ''partial'', FinishedSignal 130], Completed) \<and>
   env_reads left_while_alive = [reading (''up'' @ [newline]), reading [], stopped] \<and>
   env_poll_after left_while_alive = None \<and>
   run left_while_alive = ([StatusSignal ''Tunnel enabled.'', OutputSignal ''up''], Completed) \<and>
   env_reads rest_unreadable = [reading (''up'' @ [newline]), exited 3] \<and>
   run rest_unreadable =
     ([StatusSignal ''Tunnel enabled.'', OutputSignal ''up'',
       OutputSignal ''Error: invalid start byte'', StatusSignal ''Error occurred'',
       FinishedSignal 1], Handled (OtherException ''invalid start byte''))"
  by code_simp

subsection \<open>The order of the shutdown signals\<close>

text \<open>
  C3. Every trace of \<^verbatim>\<open>stop\<close> is accepted by the coordinator's state machine started
  in \<open>Idle\<close>: the signals go to the process group in the order interrupt, terminate,
  kill; terminate is sent only after the wait of 10 seconds that followed the interrupt
  timed out, kill only after the wait of 3 seconds that followed terminate timed out; a
  wait that returned because the process exited is followed by no signal; and when the
  process had already exited at the call, nothing is sent at all.
\<close>

theorem stop_escalates_in_order:
  "coordinator Idle (snd (stop env self)) \<and>
   (signals_sent (snd (stop env self)) = [] \<or>
    signals_sent (snd (stop env self)) = [SIGINT] \<or>
    signals_sent (snd (stop env self)) = [SIGINT, SIGTERM] \<or>
    signals_sent (snd (stop env self)) = [SIGINT, SIGTERM, SIGKILL]) \<and>
   (SIGTERM \<in> set (signals_sent (snd (stop env self))) \<longrightarrow> timed_out (se_wait_10 env)) \<and>
   (SIGKILL \<in> set (signals_sent (snd (stop env self))) \<longrightarrow>
      timed_out (se_wait_10 env) \<and> timed_out (se_wait_3 env)) \<and>
   (process self = Some p \<and> (returncode p = Some rc \<or> se_poll env = Some rc) \<longrightarrow>
      snd (stop env self) = [])"
proof -
  have x: "process self = Some p \<and> (returncode p = Some rc \<or> se_poll env = Some rc) \<longrightarrow>
      snd (stop env self) = []"
    using stop_exited[of self p rc env] by blast
  from stop_trace[of env self] show ?thesis
  proof
    assume "snd (stop env self) = []"
    then show ?thesis by simp
  next
    assume e: "snd (stop env self) = fst (stop_int env)"
    show ?thesis unfolding e using stop_int_order[of env] x[unfolded e] by auto
  qed
qed

theorem stop_escalates_in_order_witness:
  "snd (stop stubborn_child alive) =
     [OutputSignal ''[SYSTEM] Sending SIGINT (Ctrl+C) to tunnel process...'',
      Killpg SIGINT,
      OutputSignal ''[SYSTEM] Waiting for clean shutdown...'',
      Wait (Some 10) (Inl (TimeoutExpired ''timed out'')),
      OutputSignal ''[SYSTEM] Clean shutdown timeout, forcing termination...'',
      Killpg SIGTERM,
      Wait (Some 3) (Inl (TimeoutExpired ''timed out'')),
      OutputSignal ''[SYSTEM] Force killing process...'',
      Killpg SIGKILL,
      Wait None (Inr (- 9)),
      OutputSignal ''[SYSTEM] Process killed''] \<and>
   SIGKILL \<in> set (signals_sent (snd (stop stubborn_child alive))) \<and>
   timed_out (se_wait_10 stubborn_child) \<and> timed_out (se_wait_3 stubborn_child) \<and>
   coordinator Idle (snd (stop stubborn_child alive))"
proof -
  have t: "snd (stop stubborn_child alive) =
     [OutputSignal ''[SYSTEM] Sending SIGINT (Ctrl+C) to tunnel process...'',
      Killpg SIGINT,
      OutputSignal ''[SYSTEM] Waiting for clean shutdown...'',
      Wait (Some 10) (Inl (TimeoutExpired ''timed out'')),
      OutputSignal ''[SYSTEM] Clean shutdown timeout, forcing termination...'',
      Killpg SIGTERM,
      Wait (Some 3) (Inl (TimeoutExpired ''timed out'')),
      OutputSignal ''[SYSTEM] Force killing process...'',
      Killpg SIGKILL,
      Wait None (Inr (- 9)),
      OutputSignal ''[SYSTEM] Process killed'']"
    by code_simp
  then have k: "SIGKILL \<in> set (signals_sent (snd (stop stubborn_child alive)))" by simp
  from stop_escalates_in_order[of stubborn_child alive] t k show ?thesis by blast
qed

subsection \<open>A process that has vanished\<close>

text \<open>
  C8. When signalling the process group raises \<^verbatim>\<open>ProcessLookupError\<close>, at whichever of
  the three stages, \<^verbatim>\<open>stop\<close> ends there: it emits the note that the process has already
  terminated, sends no further signal and emits no error report.
\<close>

theorem lookup_failure_is_benign:
  assumes "process self = Some p" and "returncode p = None" and "se_poll env = None"
  shows
   "(se_killpg_int env = Some (ProcessLookupError m) \<longrightarrow>
       snd (stop env self) =
         [OutputSignal ''[SYSTEM] Sending SIGINT (Ctrl+C) to tunnel process...'',
          OutputSignal ''[SYSTEM] Process already terminated'']) \<and>
    (se_killpg_int env = None \<and> se_wait_10 env = Inl (TimeoutExpired t) \<and>
     se_killpg_term env = Some (ProcessLookupError m) \<longrightarrow>
       snd (stop env self) =
         [OutputSignal ''[SYSTEM] Sending SIGINT (Ctrl+C) to tunnel process...'',
          Killpg SIGINT,
          OutputSignal ''[SYSTEM] Waiting for clean shutdown...'',
          Wait (Some 10) (Inl (TimeoutExpired t)),
          OutputSignal ''[SYSTEM] Clean shutdown timeout, forcing termination...'',
          OutputSignal ''[SYSTEM] Process already terminated'']) \<and>
    (se_killpg_int env = None \<and> se_wait_10 env = Inl (TimeoutExpired t) \<and>
     se_killpg_term env = None \<and> se_wait_3 env = Inl (TimeoutExpired u) \<and>
     se_killpg_kill env = Some (ProcessLookupError m) \<longrightarrow>
       snd (stop env self) =
         [OutputSignal ''[SYSTEM] Sending SIGINT (Ctrl+C) to tunnel process...'',
          Killpg SIGINT,
          OutputSignal ''[SYSTEM] Waiting for clean shutdown...'',
          Wait (Some 10) (Inl (TimeoutExpired t)),
          OutputSignal ''[SYSTEM] Clean shutdown timeout, forcing termination...'',
          Killpg SIGTERM,
          Wait (Some 3) (Inl (TimeoutExpired u)),
          OutputSignal ''[SYSTEM] Force killing process...'',
          OutputSignal ''[SYSTEM] Process already terminated''])"
  unfolding stop_alive[OF assms]
  by (auto simp: stop_int_def stop_term_def stop_kill_def)

theorem lookup_failure_is_benign_witness:
  "process alive = Some \<lparr>pid = 4242, returncode = None\<rparr> \<and>
   se_poll child_vanished = None \<and>
   se_killpg_term child_vanished = Some (ProcessLookupError ''[Errno 3] No such process'') \<and>
   snd (stop child_vanished alive) =
     [OutputSignal ''[SYSTEM] Sending SIGINT (Ctrl+C) to tunnel process...'',
      Killpg SIGINT,
      OutputSignal ''[SYSTEM] Waiting for clean shutdown...'',
      Wait (Some 10) (Inl (TimeoutExpired ''timed out'')),
      OutputSignal ''[SYSTEM] Clean shutdown timeout, forcing termination...'',
      OutputSignal ''[SYSTEM] Process already terminated'']"
proof -
  have 1: "process alive = Some \<lparr>pid = 4242, returncode = None\<rparr>" by (simp add: alive_def)
  have 2: "returncode \<lparr>pid = 4242, returncode = None\<rparr> = None" by simp
  have 3: "se_poll child_vanished = None" by (simp add: child_vanished_def)
  have 4: "se_killpg_int child_vanished = None \<and>
           se_wait_10 child_vanished = Inl (TimeoutExpired ''timed out'') \<and>
           se_killpg_term child_vanished = Some (ProcessLookupError ''[Errno 3] No such process'')"
    by (simp add: child_vanished_def)
  from lookup_failure_is_benign[OF 1 2 3, of "''[Errno 3] No such process''" "''timed out''"] 1 3 4
  show ?thesis by simp
qed

subsection \<open>Stopping twice\<close>

text \<open>
  C5. A second stop produces no second shutdown sequence: \<^verbatim>\<open>stop_tunnel\<close> called while
  \<open>stopping\<close> is set returns at once and changes nothing; \<^verbatim>\<open>ScriptRunner.stop\<close> on a
  process whose exit has been observed, or is observed by its \<^verbatim>\<open>poll()\<close>, sends and
  emits nothing; after a \<^verbatim>\<open>stop\<close> that
  ran to one of its three closing messages a second \<^verbatim>\<open>stop\<close> changes nothing and sends
  nothing, so the signals of both calls together are the one escalation of the first; and
  the same holds for two calls of \<^verbatim>\<open>stop_tunnel\<close> in succession.
\<close>

theorem second_stop_sends_nothing:
  "(stopping g \<longrightarrow> stop_tunnel tenv g = (g, [])) \<and>
   (process self = Some p \<and> returncode p = Some rc \<longrightarrow>
      stop env self = (self\<lparr>running := False\<rparr>, [])) \<and>
   (process self = Some p \<and> se_poll env = Some rc \<longrightarrow> snd (stop env self) = []) \<and>
   (stop env self = (self', out) \<and> stop_succeeded out \<longrightarrow>
      stop env' self' = (self', []) \<and>
      signals_sent (out @ snd (stop env' self')) = signals_sent out \<and>
      (signals_sent out = [SIGINT] \<or> signals_sent out = [SIGINT, SIGTERM] \<or>
       signals_sent out = [SIGINT, SIGTERM, SIGKILL])) \<and>
   (\<not> stopping g \<and> stop_tunnel tenv g = (g', out') \<and> stop_succeeded out' \<longrightarrow>
      snd (stop_tunnel tenv' g') = [])"
proof -
  have a: "stopping g \<longrightarrow> stop_tunnel tenv g = (g, [])" by (simp add: stop_tunnel_def)
  have b: "process self = Some p \<and> returncode p = Some rc \<longrightarrow>
      stop env self = (self\<lparr>running := False\<rparr>, [])"
    using stop_when_exited by blast
  have b': "process self = Some p \<and> se_poll env = Some rc \<longrightarrow> snd (stop env self) = []"
    using stop_exited by blast
  have c: "stop env' self' = (self', []) \<and>
      signals_sent (out @ snd (stop env' self')) = signals_sent out \<and>
      (signals_sent out = [SIGINT] \<or> signals_sent out = [SIGINT, SIGTERM] \<or>
       signals_sent out = [SIGINT, SIGTERM, SIGKILL])"
    if h: "stop env self = (self', out)" "stop_succeeded out"
  proof -
    have 1: "stop env' self' = (self', [])" using h by (rule stop_twice)
    from h(2) have ne: "out \<noteq> []" by (simp add: stop_succeeded_def)
    with stop_trace[of env self] h(1) have o: "out = fst (stop_int env)" by auto
    from stop_int_code[of env] h(2) o obtain rc' where rc': "snd (stop_int env) = Some rc'"
      by auto
    have "signals_sent (fst (stop_int env)) \<noteq> []"
      using rc' by (auto simp: stop_int_def split: option.splits sum.splits exn.splits prod.splits)
    with stop_int_order(2)[of env] o 1 show ?thesis by auto
  qed
  have d: "\<not> stopping g \<and> stop_tunnel tenv g = (g', out') \<and> stop_succeeded out' \<longrightarrow>
      snd (stop_tunnel tenv' g') = []"
    using stop_tunnel_twice by blast
  from a b b' c d show ?thesis by blast
qed

theorem second_stop_sends_nothing_witness:
  "\<not> stopping tunnel_running \<and>
   snd (stop_tunnel (pressing_stop obedient_child) tunnel_running) =
     [OutputSignal ''[SYSTEM] Sending SIGINT (Ctrl+C) to tunnel process...'',
      Killpg SIGINT,
      OutputSignal ''[SYSTEM] Waiting for clean shutdown...'',
      Wait (Some 10) (Inr 130),
      OutputSignal ''[SYSTEM] Process stopped cleanly''] \<and>
   stop_succeeded (snd (stop_tunnel (pressing_stop obedient_child) tunnel_running)) \<and>
   snd (stop_tunnel (pressing_stop stubborn_child)
          (fst (stop_tunnel (pressing_stop obedient_child) tunnel_running))) = []"
proof -
  have 1: "\<not> stopping tunnel_running" by (simp add: tunnel_running_def)
  have 2: "snd (stop_tunnel (pressing_stop obedient_child) tunnel_running) =
     [OutputSignal ''[SYSTEM] Sending SIGINT (Ctrl+C) to tunnel process...'',
      Killpg SIGINT,
      OutputSignal ''[SYSTEM] Waiting for clean shutdown...'',
      Wait (Some 10) (Inr 130),
      OutputSignal ''[SYSTEM] Process stopped cleanly'']"
    by code_simp
  have 3: "stop_succeeded (snd (stop_tunnel (pressing_stop obedient_child) tunnel_running))"
    unfolding 2 by (simp add: stop_succeeded_def)
  have 4: "stop_tunnel (pressing_stop obedient_child) tunnel_running =
      (fst (stop_tunnel (pressing_stop obedient_child) tunnel_running),
       snd (stop_tunnel (pressing_stop obedient_child) tunnel_running))"
    by simp
  from second_stop_sends_nothing[where g = tunnel_running
      and tenv = "pressing_stop obedient_child"
      and g' = "fst (stop_tunnel (pressing_stop obedient_child) tunnel_running)"
      and out' = "snd (stop_tunnel (pressing_stop obedient_child) tunnel_running)"
      and tenv' = "pressing_stop stubborn_child"] 1 2 3 4
  show ?thesis by simp
qed

subsection \<open>A launch that fails\<close>

text \<open>
  C7. When the script file is missing, or \<^verbatim>\<open>sudo -n true\<close> returns a nonzero code or
  cannot be executed, \<^verbatim>\<open>start_tunnel\<close> shows one error box and returns with the window
  as it was: no \<^verbatim>\<open>ScriptRunner\<close> is created or started, no log timer is armed, no
  \<^verbatim>\<open>LogMonitor\<close> is started and the two buttons keep their state.  (When both checks
  pass, the runner is started and the timer armed.)
\<close>

theorem failed_launch_leaves_no_state:
  "(\<not> st_script_exists env \<longrightarrow>
      start_tunnel env g =
        (g, [Critical ''Error'' ''Script file 'pdanet_rwt.sh' not found in current directory''])) \<and>
   (st_script_exists env \<and> st_sudo env = Inr code \<and> code \<noteq> 0 \<longrightarrow>
      start_tunnel env g =
        (g, [Critical ''Error''
               ''This script requires sudo privileges. Please run with sudo or configure passwordless sudo.''])) \<and>
   (st_script_exists env \<and> st_sudo env = Inl e \<longrightarrow>
      start_tunnel env g =
        (g, [Critical ''Error'' (''Unable to execute sudo command: '' @ str_exn e)])) \<and>
   (\<not> st_script_exists env \<or> (\<exists>e. st_sudo env = Inl e) \<or> (\<exists>code. st_sudo env = Inr code \<and> code \<noteq> 0)
      \<longrightarrow> fst (start_tunnel env g) = g \<and>
          StartScriptRunner \<notin> set (snd (start_tunnel env g)) \<and>
          (\<forall>f. StartLogMonitor f \<notin> set (snd (start_tunnel env g))) \<and>
          script_runner (fst (start_tunnel env g)) = script_runner g \<and>
          log_monitor (fst (start_tunnel env g)) = log_monitor g \<and>
          log_timer (fst (start_tunnel env g)) = log_timer g \<and>
          start_btn_enabled (fst (start_tunnel env g)) = start_btn_enabled g \<and>
          stop_btn_enabled (fst (start_tunnel env g)) = stop_btn_enabled g) \<and>
   (st_script_exists env \<and> st_sudo env = Inr 0 \<longrightarrow>
      snd (start_tunnel env g) = [StartScriptRunner] \<and>
      log_timer (fst (start_tunnel env g)) = Some 2000)"
  by (auto simp: start_tunnel_def)

theorem failed_launch_leaves_no_state_witness:
  "st_script_exists no_sudo \<and> st_sudo no_sudo = Inr 1 \<and>
   start_tunnel no_sudo window_ready =
     (window_ready,
      [Critical ''Error''
         ''This script requires sudo privileges. Please run with sudo or configure passwordless sudo.'']) \<and>
   snd (start_tunnel all_set window_ready) = [StartScriptRunner]"
proof -
  have 1: "st_script_exists no_sudo \<and> st_sudo no_sudo = Inr 1 \<and> (1::int) \<noteq> 0"
    by (simp add: no_sudo_def)
  have 2: "st_script_exists all_set \<and> st_sudo all_set = Inr 0" by (simp add: all_set_def)
  from failed_launch_leaves_no_state[of no_sudo window_ready 1]
    failed_launch_leaves_no_state[of all_set window_ready] 1 2
  show ?thesis by simp
qed

subsection \<open>The tailer attaches at the end of the file\<close>

text \<open>
  C6. A tailer started while the log file does not exist sleeps one second per test
  until the file exists, then opens it with the read cursor at the end of what the file
  holds at that moment; what it emits from then on is what it would emit on a file that
  was empty at the attach, so nothing written before the attach is forwarded.  In the
  window, the discovery is retried every 2000 milliseconds until a log file is found, and
  the tailer is then started on the most recently created one.
\<close>

theorem tailer_attaches_at_end:
  assumes "\<forall>b \<in> set before. tk_running b \<and> \<not> tk_exists b"
    and "tk_running t" and "tk_exists t" and "tk_open t = None"
  shows
   "LogMonitor_run (before @ [t]) Detached content =
      (replicate (length before) (Sleep 1000),
       Attached (length (content @ concat (map tk_written before) @ tk_written t))) \<and>
    fst (LogMonitor_run (before @ t # later) Detached content) =
      replicate (length before) (Sleep 1000) @ fst (LogMonitor_run later (Attached 0) []) \<and>
    (workspace g \<noteq> [] \<and> log_timer g = Some ms \<longrightarrow>
       snd (discovery (replicate k [] @ (f # fs) # found_later) g) = ms # replicate k 2000 \<and>
       snd (fst (discovery (replicate k [] @ (f # fs) # found_later) g)) =
         [StartLogMonitor (latest_of f fs)] \<and>
       log_monitor (fst (fst (discovery (replicate k [] @ (f # fs) # found_later) g))) =
         Some \<lparr>log_file = latest_of f fs, lm_running = False\<rparr>)"
proof -
  have a: "LogMonitor_run (before @ [t]) Detached content =
      (replicate (length before) (Sleep 1000),
       Attached (length (content @ concat (map tk_written before) @ tk_written t)))"
    using LogMonitor_run_waiting[OF assms(1), of "[t]" content] assms(2-4) by simp
  have s: "LogMonitor_run (t # later) Detached c =
      LogMonitor_run later (Attached (length (c @ tk_written t))) (c @ tk_written t)" for c
    using assms(2-4) by (simp del: length_append)
  have "fst (LogMonitor_run (before @ t # later) Detached content) =
      replicate (length before) (Sleep 1000)
        @ fst (LogMonitor_run (t # later) Detached (content @ concat (map tk_written before)))"
    by (simp only: LogMonitor_run_waiting[OF assms(1)] fst_conv)
  then have b: "fst (LogMonitor_run (before @ t # later) Detached content) =
      replicate (length before) (Sleep 1000) @ fst (LogMonitor_run later (Attached 0) [])"
    by (simp only: s LogMonitor_run_from_end)
  have c: "snd (discovery (replicate k [] @ (f # fs) # found_later) g) = ms # replicate k 2000 \<and>
       snd (fst (discovery (replicate k [] @ (f # fs) # found_later) g)) =
         [StartLogMonitor (latest_of f fs)] \<and>
       log_monitor (fst (fst (discovery (replicate k [] @ (f # fs) # found_later) g))) =
         Some \<lparr>log_file = latest_of f fs, lm_running = False\<rparr>"
    if "workspace g \<noteq> []" "log_timer g = Some ms"
    using discovery_retries[OF that, of k f fs found_later] that(1)
    by (simp add: start_log_monitoring_def Let_def append_output_def)
  from a b c show ?thesis by blast
qed

theorem tailer_attaches_at_end_witness:
  "LogMonitor_run [absent [], absent [], appended (''old line'' @ [newline])] Detached [] =
     ([Sleep 1000, Sleep 1000], Attached 9) \<and>
   fst (LogMonitor_run
          [absent [], absent [], appended (''old line'' @ [newline]),
           appended (''new line'' @ [newline]), appended []] Detached []) =
     [Sleep 1000, Sleep 1000, LogSignal ''new line'', Sleep 100] \<and>
   snd (discovery [[], [], [(''/usr/local/bin/pdanet-rwt-bin/logs/pdanet_1.log'', 7),
                            (''/usr/local/bin/pdanet-rwt-bin/logs/pdanet_2.log'', 9)]] launched) =
     [2000, 2000, 2000] \<and>
   snd (fst (discovery [[], [], [(''/usr/local/bin/pdanet-rwt-bin/logs/pdanet_1.log'', 7),
                                 (''/usr/local/bin/pdanet-rwt-bin/logs/pdanet_2.log'', 9)]] launched)) =
     [StartLogMonitor ''/usr/local/bin/pdanet-rwt-bin/logs/pdanet_2.log'']"
proof -
  have 1: "\<forall>b \<in> set [absent [], absent []]. tk_running b \<and> \<not> tk_exists b"
    by (simp add: absent_def)
  have 2: "tk_running (appended (''old line'' @ [newline]))"
    "tk_exists (appended (''old line'' @ [newline]))"
    "tk_open (appended (''old line'' @ [newline])) = None"
    by (simp_all add: appended_def)
  have 3: "workspace launched \<noteq> [] \<and> log_timer launched = Some 2000"
    by (simp add: launched_def all_set_def start_tunnel_def)
  have 4: "fst (LogMonitor_run [appended (''new line'' @ [newline]), appended []] (Attached 0) [])
           = [LogSignal ''new line'', Sleep 100]"
    by code_simp
  have 5: "latest_of (''/usr/local/bin/pdanet-rwt-bin/logs/pdanet_1.log'', 7)
             [(''/usr/local/bin/pdanet-rwt-bin/logs/pdanet_2.log'', 9)]
           = ''/usr/local/bin/pdanet-rwt-bin/logs/pdanet_2.log''"
    by simp
  have 6: "replicate 2 ([] :: (string \<times> nat) list) = [[], []]" by (simp add: numeral_2_eq_2)
  from tailer_attaches_at_end[OF 1 2, of "[]"
      "[appended (''new line'' @ [newline]), appended []]" launched 2000 2
      "(''/usr/local/bin/pdanet-rwt-bin/logs/pdanet_1.log'', 7)"
      "[(''/usr/local/bin/pdanet-rwt-bin/logs/pdanet_2.log'', 9)]" "[]"] 3 4 5 6
  show ?thesis by (simp add: absent_def appended_def numeral_2_eq_2)
qed

end
